theory Spec2Isabelle
  imports Complex_Main "HOL-Library.Multiset" "HOL-Library.AList" "HOL-Library.Sublist"
begin

section \<open>Host scene model\<close>

text \<open>
  The tools drive a host application through its command API. The part of the host the
  UV tools touch is modelled as a record of query results: which UV points exist, which
  vertex a UV point sits on, what coordinates it has, and whether a coordinate write is
  accepted. A UV component \<^verbatim>\<open>"<node>.map[<i>]"\<close> is the pair of its node name and its
  integer index. Coordinates are Python floats in the source: a float is modelled by the
  real number it denotes, and the arithmetic on floats by the rounding operations of
  the next section, never by the exact operations of the reals.
\<close>

type_synonym node = string
type_synonym comp = "node \<times> nat"
type_synonym coord = "real \<times> real"

text \<open>
  The outcomes of \<^verbatim>\<open>cmds.polyEditUV(uv, query=True)\<close> that the source distinguishes:
  a list of exactly two floats; \<^verbatim>\<open>None\<close>; a list of fewer than two values; a list of
  more than two values, of which only the first two are kept here; and an exception.
  The copy tools test \<^verbatim>\<open>uv_coords and len(uv_coords) >= 2\<close> and read the first two
  values; the snap tool unpacks \<^verbatim>\<open>u, v = ...\<close>, which needs exactly two.
\<close>

datatype query =
  is_Coords: Coords (coords_of: coord) | Nothing | Short | Long coord | Raises

text \<open>
  The fields of a scene, each the answer of one host command:
  \<^item> \<open>uv_query\<close>: \<^verbatim>\<open>polyEditUV(uv, query=True)\<close>;
  \<^item> \<open>border_shell\<close>: the UV components selected after \<^verbatim>\<open>select(uv, replace=True)\<close> and
    \<^verbatim>\<open>polySelectBorderShell 0\<close>, in the order the host lists them;
  \<^item> \<open>uv_vertex\<close>: the index of the first vertex of
    \<^verbatim>\<open>polyListComponentConversion(uv, fromUV=True, toVertex=True)\<close>, \<open>None\<close> when the
    conversion is empty or raises;
  \<^item> \<open>uv_writable\<close>: whether a coordinate write to the UV point is accepted;
  \<^item> \<open>edit_calls\<close>: the coordinate writes the host has been sent so far;
  \<^item> \<open>is_mesh\<close>, \<open>mesh_shapes\<close>: \<^verbatim>\<open>nodeType(obj) == 'mesh'\<close> and
    \<^verbatim>\<open>listRelatives(obj, shapes=True, type='mesh', fullPath=True)\<close>;
  \<^item> \<open>poly_counts\<close>: \<^verbatim>\<open>polyEvaluate\<close> for vertices, faces and UV coordinates.
  The host selection is not part of the scene: the tools read it once at the start of a
  call, and it is passed to them as an argument.
\<close>

record scene =
  uv_query :: "comp \<Rightarrow> query"
  border_shell :: "comp \<Rightarrow> comp list"
  uv_vertex :: "comp \<Rightarrow> nat option"
  uv_writable :: "comp \<Rightarrow> bool"
  edit_calls :: "(comp \<times> coord) list"
  is_mesh :: "node \<Rightarrow> bool"
  mesh_shapes :: "node \<Rightarrow> node list"
  poly_counts :: "node \<Rightarrow> nat \<times> nat \<times> nat"

text \<open>
  \<^verbatim>\<open>cmds.polyEditUV(uv, u=.., v=.., relative=False)\<close>: the host receives the command
  (\<open>edit_calls\<close> is its record of the write commands it was sent, in order) and either
  raises, leaving every coordinate as it was (result \<open>False\<close>), or replaces the
  coordinate of that one UV point (result \<open>True\<close>).
\<close>

definition polyEditUV_set :: "scene \<Rightarrow> comp \<Rightarrow> coord \<Rightarrow> bool \<times> scene" where
  "polyEditUV_set s c xy =
     (let s' = s\<lparr>edit_calls := edit_calls s @ [(c, xy)]\<rparr>
      in if uv_writable s c
         then (True, s'\<lparr>uv_query := (uv_query s)(c := Coords xy)\<rparr>)
         else (False, s'))"

section \<open>Floating-point arithmetic\<close>

text \<open>
  The operations on floats that the tools use: \<^verbatim>\<open>+\<close>, \<^verbatim>\<open>-\<close>, \<^verbatim>\<open>/\<close>, \<^verbatim>\<open>** 2\<close> and
  \<^verbatim>\<open>math.sqrt\<close>. Each returns a float, that is, a rounded result; which float is up
  to the arithmetic of the platform. Every function below that computes with coordinates
  takes the arithmetic as its first argument and applies its operations in the order of
  the source, so that nothing proved about it depends on a law of real arithmetic.
  Comparisons of floats are exact and are those of the reals. Not-a-number and the
  infinities have no counterpart here, and \<^verbatim>\<open>** 2\<close> raising \<^verbatim>\<open>OverflowError\<close> is not
  modelled.
\<close>

record arith =
  f_add :: "real \<Rightarrow> real \<Rightarrow> real"
  f_sub :: "real \<Rightarrow> real \<Rightarrow> real"
  f_div :: "real \<Rightarrow> real \<Rightarrow> real"
  f_sqr :: "real \<Rightarrow> real"
  f_sqrt :: "real \<Rightarrow> real"

text \<open>
  The built-in \<^verbatim>\<open>sum\<close> over floats, as the interpreters of Maya 2022 (Python 3.7
  and 2.7) compute it: it starts from \<^verbatim>\<open>0\<close> and adds the items from the left, one
  float addition per item.
\<close>

definition f_sum :: "arith \<Rightarrow> real list \<Rightarrow> real" where
  "f_sum ar xs = foldl (f_add ar) 0 xs"

text \<open>
  The arithmetic of IEEE 754 binary64 (\<^verbatim>\<open>double\<close>, the representation of a Python
  float) in the default rounding mode: the exact result is rounded to the nearest
  number with a 53-bit significand, a tie going to the even significand. Below the
  normal range the spacing stays that of the smallest normal binade (the subnormal
  numbers); results beyond the largest double are outside the model.
\<close>

definition round_even :: "real \<Rightarrow> int" where
  "round_even y =
     (let n = \<lfloor>y\<rfloor>
      in if y - of_int n < 1 / 2 then n
         else if 1 / 2 < y - of_int n then n + 1
         else if even n then n else n + 1)"

definition round_double :: "real \<Rightarrow> real" where
  "round_double x =
     (if x = 0 then 0
      else let e = max \<lfloor>log 2 \<bar>x\<bar>\<rfloor> (- 1022);
               ulp = 2 powi (e - 52)
           in of_int (round_even (x / ulp)) * ulp)"

definition double_arith :: arith where
  "double_arith =
     \<lparr>f_add = (\<lambda>a b. round_double (a + b)),
      f_sub = (\<lambda>a b. round_double (a - b)),
      f_div = (\<lambda>a b. round_double (a / b)),
      f_sqr = (\<lambda>a. round_double (a\<^sup>2)),
      f_sqrt = (\<lambda>a. round_double (sqrt a))\<rparr>"

section \<open>Vertex-anchored ordering\<close>

text \<open>
  Both tools order UV indices with
  \<^verbatim>\<open>sorted(uv_ids, key=lambda x: uv_to_vertex.get(x, x))\<close>.
  Python's \<^verbatim>\<open>sorted\<close> is a stable sort on the key alone; \<open>sort_key\<close> is the stable
  insertion sort of the library, and a stable sort by a key has only one possible result.
\<close>

definition anchor_key :: "(nat \<rightharpoonup> nat) \<Rightarrow> nat \<Rightarrow> nat" where
  "anchor_key uv_to_vertex x = (case uv_to_vertex x of Some v \<Rightarrow> v | None \<Rightarrow> x)"

definition sorted_by_vertex :: "(nat \<rightharpoonup> nat) \<Rightarrow> nat list \<Rightarrow> nat list" where
  "sorted_by_vertex uv_to_vertex uv_ids = sort_key (anchor_key uv_to_vertex) uv_ids"

section \<open>Whole-mesh UV transfer (UV\_Transfer\_Tool.py)\<close>

text \<open>
  \<^verbatim>\<open>UVTransferTool.get_uv_to_vertex_mapping\<close>: for every UV index of the mesh, the
  first vertex the host converts it to; the UV index itself when the conversion returns
  nothing or raises (\<open>uv_vertex\<close> is \<open>None\<close> in both cases).
\<close>

definition uv_count_of :: "scene \<Rightarrow> node \<Rightarrow> nat" where
  "uv_count_of s mesh = snd (snd (poly_counts s mesh))"

definition transfer_get_uv_to_vertex_mapping :: "scene \<Rightarrow> node \<Rightarrow> (nat \<rightharpoonup> nat)" where
  "transfer_get_uv_to_vertex_mapping s mesh =
     fold (\<lambda>uv_id uv_to_vertex.
             uv_to_vertex(uv_id \<mapsto> (case uv_vertex s (mesh, uv_id) of
                                         Some vertex_id \<Rightarrow> vertex_id
                                       | None \<Rightarrow> uv_id)))
          [0..<uv_count_of s mesh] Map.empty"

text \<open>
  The snapshot dictionary returned by \<^verbatim>\<open>get_mesh_uv_data\<close>. \<open>m_uv_data\<close> is a Python
  dict, kept as an association list in insertion order.
\<close>

record mesh_data =
  m_mesh :: node
  m_vertex_count :: nat
  m_face_count :: nat
  m_uv_count :: nat
  m_uv_data :: "(nat \<times> coord) list"
  m_uv_to_vertex :: "nat \<rightharpoonup> nat"
  m_sorted_uv_ids :: "nat list"

text \<open>
  One iteration of the read loop of \<^verbatim>\<open>get_mesh_uv_data\<close>: the first two values of a
  result with at least two are stored, a falsy or short result stores nothing, and an
  exception stores \<open>(0.0, 0.0)\<close>.
\<close>

definition read_mesh_uv :: "scene \<Rightarrow> node \<Rightarrow> nat \<Rightarrow> (nat \<times> coord) list \<Rightarrow> (nat \<times> coord) list" where
  "read_mesh_uv s mesh uv_id uv_data =
     (case uv_query s (mesh, uv_id) of
        Coords uv_coords \<Rightarrow> AList.update uv_id uv_coords uv_data
      | Long uv_coords \<Rightarrow> AList.update uv_id uv_coords uv_data
      | Nothing \<Rightarrow> uv_data
      | Short \<Rightarrow> uv_data
      | Raises \<Rightarrow> AList.update uv_id (0, 0) uv_data)"

definition get_mesh_uv_data :: "scene \<Rightarrow> node \<Rightarrow> mesh_data" where
  "get_mesh_uv_data s mesh =
     (case poly_counts s mesh of (vertex_count, face_count, uv_count) \<Rightarrow>
        let uv_data = fold (read_mesh_uv s mesh) [0..<uv_count] [];
            uv_to_vertex = transfer_get_uv_to_vertex_mapping s mesh;
            sorted_uv_ids = sorted_by_vertex uv_to_vertex (map fst uv_data)
        in \<lparr>m_mesh = mesh, m_vertex_count = vertex_count, m_face_count = face_count,
            m_uv_count = uv_count, m_uv_data = uv_data, m_uv_to_vertex = uv_to_vertex,
            m_sorted_uv_ids = sorted_uv_ids\<rparr>)"

text \<open>
  \<^verbatim>\<open>get_mesh_from_selection\<close> and \<^verbatim>\<open>copy_uv_from_mesh\<close>. The selection is given as
  the two lists the source asks the host for: the selected transforms and the selected
  mesh shapes. \<open>False\<close> is the warning to select a mesh, the clipboard left as it was.
\<close>

definition get_mesh_from_selection :: "scene \<Rightarrow> node list \<Rightarrow> node list \<Rightarrow> node option" where
  "get_mesh_from_selection s sel_transforms sel_meshes =
     (case sel_transforms of
        [] \<Rightarrow> (case sel_meshes of [] \<Rightarrow> None | mesh # _ \<Rightarrow> Some mesh)
      | tr # _ \<Rightarrow> (case mesh_shapes s tr of [] \<Rightarrow> None | shape # _ \<Rightarrow> Some shape))"

definition copy_uv_from_mesh ::
  "scene \<Rightarrow> node list \<Rightarrow> node list \<Rightarrow> mesh_data option \<Rightarrow> bool \<times> mesh_data option" where
  "copy_uv_from_mesh s sel_transforms sel_meshes clipboard =
     (case get_mesh_from_selection s sel_transforms sel_meshes of
        None \<Rightarrow> (False, clipboard)
      | Some mesh \<Rightarrow> (True, Some (get_mesh_uv_data s mesh)))"

text \<open>
  The entries of \<^verbatim>\<open>failed_list\<close>. The source formats each as one string: the short name
  of the target, the metric that differs, the target's value and the source's value.
\<close>

datatype mesh_failure =
    NotAMesh string
  | VertexCountMismatch string nat nat
  | FaceCountMismatch string nat nat
  | UVCountMismatch string nat nat

definition short_name :: "string \<Rightarrow> string" where
  "short_name path = rev (takeWhile (\<lambda>c. c \<noteq> CHR ''|'') (rev path))"

text \<open>
  The three topology tests of the loop body of \<^verbatim>\<open>paste_uv_to_mesh\<close>, in the order of
  the source; each ends the iteration with one entry and \<^verbatim>\<open>continue\<close>.
\<close>

definition check_topology :: "mesh_data \<Rightarrow> string \<Rightarrow> nat \<times> nat \<times> nat \<Rightarrow> mesh_failure option" where
  "check_topology uv_data obj_short_name target_counts =
     (case target_counts of (target_vertex_count, target_face_count, target_uv_count) \<Rightarrow>
        if target_vertex_count \<noteq> m_vertex_count uv_data
        then Some (VertexCountMismatch obj_short_name target_vertex_count (m_vertex_count uv_data))
        else if target_face_count \<noteq> m_face_count uv_data
        then Some (FaceCountMismatch obj_short_name target_face_count (m_face_count uv_data))
        else if target_uv_count \<noteq> m_uv_count uv_data
        then Some (UVCountMismatch obj_short_name target_uv_count (m_uv_count uv_data))
        else None)"

text \<open>
  The write loop of \<^verbatim>\<open>paste_uv_to_mesh\<close> over the target order and the source order in
  step: it stops at the end of the shorter list, skips a source index without stored
  coordinates, and counts a write that raises in \<open>error_count\<close> and goes on.
\<close>

fun apply_uv_data ::
  "node \<Rightarrow> (nat \<times> coord) list \<Rightarrow> nat list \<Rightarrow> nat list \<Rightarrow> scene \<times> nat \<times> nat \<Rightarrow> scene \<times> nat \<times> nat" where
  "apply_uv_data target_mesh uv_data [] source_ids acc = acc"
| "apply_uv_data target_mesh uv_data (target_uv_id # target_ids) [] acc = acc"
| "apply_uv_data target_mesh uv_data (target_uv_id # target_ids) (source_uv_id # source_ids)
       (s, apply_count, error_count) =
     (case map_of uv_data source_uv_id of
        None \<Rightarrow> apply_uv_data target_mesh uv_data target_ids source_ids (s, apply_count, error_count)
      | Some uv_coords \<Rightarrow>
          (case polyEditUV_set s (target_mesh, target_uv_id) uv_coords of
             (True, s') \<Rightarrow>
               apply_uv_data target_mesh uv_data target_ids source_ids (s', apply_count + 1, error_count)
           | (False, s') \<Rightarrow>
               apply_uv_data target_mesh uv_data target_ids source_ids (s', apply_count, error_count + 1)))"

text \<open>
  The start of the loop body of \<^verbatim>\<open>paste_uv_to_mesh\<close>: the selected node itself when it
  is a mesh, else its first mesh shape, else none.
\<close>

definition target_mesh_of :: "scene \<Rightarrow> node \<Rightarrow> node option" where
  "target_mesh_of s obj =
     (if is_mesh s obj then Some obj
      else (case mesh_shapes s obj of [] \<Rightarrow> None | shape # _ \<Rightarrow> Some shape))"

text \<open>
  One iteration of the target loop of \<^verbatim>\<open>paste_uv_to_mesh\<close>: \<open>Inl\<close> is the entry
  appended to \<^verbatim>\<open>failed_list\<close>, \<open>Inr\<close> the pair \<^verbatim>\<open>(apply_count, error_count)\<close> of a
  target that was written.
\<close>

definition paste_mesh_target :: "mesh_data \<Rightarrow> scene \<Rightarrow> node \<Rightarrow> scene \<times> (mesh_failure + nat \<times> nat)" where
  "paste_mesh_target uv_data s obj =
     (case target_mesh_of s obj of
        None \<Rightarrow> (s, Inl (NotAMesh (short_name obj)))
      | Some target_mesh \<Rightarrow>
          (case check_topology uv_data (short_name obj) (poly_counts s target_mesh) of
             Some failed_msg \<Rightarrow> (s, Inl failed_msg)
           | None \<Rightarrow>
               let target_uv_to_vertex = transfer_get_uv_to_vertex_mapping s target_mesh;
                   target_sorted_uv_ids =
                     sorted_by_vertex target_uv_to_vertex [0..<uv_count_of s target_mesh]
               in (case apply_uv_data target_mesh (m_uv_data uv_data) target_sorted_uv_ids
                          (m_sorted_uv_ids uv_data) (s, 0, 0) of
                     (s', apply_count, error_count) \<Rightarrow> (s', Inr (apply_count, error_count)))))"

fun paste_mesh_targets ::
  "mesh_data \<Rightarrow> node list \<Rightarrow> scene \<times> nat \<times> mesh_failure list \<Rightarrow> scene \<times> nat \<times> mesh_failure list" where
  "paste_mesh_targets uv_data [] acc = acc"
| "paste_mesh_targets uv_data (obj # objs) (s, success_count, failed_list) =
     (case paste_mesh_target uv_data s obj of
        (s', Inl failed_msg) \<Rightarrow>
          paste_mesh_targets uv_data objs (s', success_count, failed_list @ [failed_msg])
      | (s', Inr counts) \<Rightarrow>
          paste_mesh_targets uv_data objs (s', success_count + 1, failed_list))"

text \<open>
  \<^verbatim>\<open>paste_uv_to_mesh\<close>: either one of the two early warnings (copy first, select a
  target first), or the report of the batch: the total, the success count and the
  failure list. The call returns \<open>success_count > 0\<close>.
\<close>

datatype mesh_warning = CopyMeshFirst | SelectMeshFirst

record mesh_report =
  mr_total_count :: nat
  mr_success_count :: nat
  mr_failed_list :: "mesh_failure list"

definition paste_uv_to_mesh ::
  "mesh_data option \<Rightarrow> scene \<Rightarrow> node list \<Rightarrow> node list
     \<Rightarrow> scene \<times> (mesh_warning + mesh_report)" where
  "paste_uv_to_mesh clipboard s sel_transforms sel_meshes =
     (case clipboard of
        None \<Rightarrow> (s, Inl CopyMeshFirst)
      | Some uv_data \<Rightarrow>
          let selection = (if sel_transforms \<noteq> [] then sel_transforms else sel_meshes)
          in if selection = [] then (s, Inl SelectMeshFirst)
             else (case paste_mesh_targets uv_data selection (s, 0, []) of
                     (s', success_count, failed_list) \<Rightarrow>
                       (s', Inr \<lparr>mr_total_count = length selection,
                                 mr_success_count = success_count,
                                 mr_failed_list = failed_list\<rparr>)))"

section \<open>UV shell copy and paste (UV\_Copy\_Paste\_Tool.py)\<close>

text \<open>
  An entry of the host selection is a UV component or something else (a vertex, a face,
  a whole object); \<^verbatim>\<open>cmds.filterExpand(.., selectionMask=35)\<close> keeps the UV components.
  \<open>border_shell s c\<close> is what the source reads back after selecting \<open>c\<close> alone and running
  \<^verbatim>\<open>polySelectBorderShell 0\<close>: the UV components of the connected region of \<open>c\<close>.
\<close>

datatype sel_item = UV comp | NonUV string

definition filterExpand_uv :: "sel_item list \<Rightarrow> comp list" where
  "filterExpand_uv sel = List.map_filter (\<lambda>x. case x of UV c \<Rightarrow> Some c | NonUV _ \<Rightarrow> None) sel"

text \<open>Exceptions that leave a tool function instead of a return value.\<close>

datatype exn = HostError | ZeroDivisionError | KeyError | TypeError | ValueError

text \<open>
  The loop of \<^verbatim>\<open>get_selected_uv_shells\<close>: a UV already in \<^verbatim>\<open>processed_uvs\<close> is
  skipped; otherwise its shell is expanded, the shell's first UV is appended as the
  representative, and every UV of the shell is marked processed.
\<close>

fun collect_uv_shells :: "scene \<Rightarrow> comp list \<Rightarrow> comp list \<times> comp set \<Rightarrow> comp list \<times> comp set" where
  "collect_uv_shells s [] acc = acc"
| "collect_uv_shells s (uv_comp # rest) (all_uv_shells, processed_uvs) =
     (if uv_comp \<in> processed_uvs then collect_uv_shells s rest (all_uv_shells, processed_uvs)
      else (case border_shell s uv_comp of
              [] \<Rightarrow> collect_uv_shells s rest (all_uv_shells, processed_uvs)
            | first # others \<Rightarrow>
                collect_uv_shells s rest
                  (all_uv_shells @ [first], processed_uvs \<union> set (first # others))))"

definition get_selected_uv_shells :: "scene \<Rightarrow> sel_item list \<Rightarrow> comp list option" where
  "get_selected_uv_shells s selected_uvs =
     (if selected_uvs = [] then None
      else (case filterExpand_uv selected_uvs of
              [] \<Rightarrow> None
            | uv_components \<Rightarrow>
                (case fst (collect_uv_shells s uv_components ([], {})) of
                   [] \<Rightarrow> None
                 | all_uv_shells \<Rightarrow> Some all_uv_shells)))"

text \<open>
  \<^verbatim>\<open>UVShellCopyPasteTool.get_uv_to_vertex_mapping\<close> (its \<^verbatim>\<open>obj_name\<close> argument is not
  used by the source): every UV index of the list gets the first vertex of its
  conversion, or itself when the conversion is empty or raises.
\<close>

definition shell_get_uv_to_vertex_mapping :: "scene \<Rightarrow> comp list \<Rightarrow> (nat \<rightharpoonup> nat)" where
  "shell_get_uv_to_vertex_mapping s uv_components =
     fold (\<lambda>uv uv_to_vertex.
             uv_to_vertex(snd uv \<mapsto> (case uv_vertex s uv of
                                         Some vertex_id \<Rightarrow> vertex_id
                                       | None \<Rightarrow> snd uv)))
          uv_components Map.empty"

text \<open>
  The dictionary built by \<^verbatim>\<open>get_uv_shell_data\<close>; \<^verbatim>\<open>copy_uv_shell\<close> later adds the
  keys \<^verbatim>\<open>center\<close> and \<^verbatim>\<open>relative_coords\<close>, absent (\<open>None\<close>) until then.
\<close>

record shell_data =
  sh_object :: node
  sh_uv_count :: nat
  sh_uv_ids :: "nat list"
  sh_uv_data :: "(nat \<times> coord) list"
  sh_id_map :: "nat \<rightharpoonup> nat"
  sh_sorted_ids :: "nat list"
  sh_uv_to_vertex :: "nat \<rightharpoonup> nat"
  sh_center :: "coord option"
  sh_relative_coords :: "(nat \<times> coord) list option"

text \<open>
  The read loop of \<^verbatim>\<open>get_uv_shell_data\<close>: every UV index is appended to
  \<^verbatim>\<open>uv_ids\<close>; its coordinates are stored when the query gives at least two values. The
  query is not inside a \<^verbatim>\<open>try\<close> here, so an exception leaves the function.
\<close>

fun read_shell_uvs ::
  "scene \<Rightarrow> comp list \<Rightarrow> nat list \<times> (nat \<times> coord) list \<Rightarrow> exn + nat list \<times> (nat \<times> coord) list" where
  "read_shell_uvs s [] acc = Inr acc"
| "read_shell_uvs s (uv # uvs) (uv_ids, uv_data) =
     (case uv_query s uv of
        Raises \<Rightarrow> Inl HostError
      | Nothing \<Rightarrow> read_shell_uvs s uvs (uv_ids @ [snd uv], uv_data)
      | Short \<Rightarrow> read_shell_uvs s uvs (uv_ids @ [snd uv], uv_data)
      | Coords uv_coords \<Rightarrow>
          read_shell_uvs s uvs (uv_ids @ [snd uv], AList.update (snd uv) uv_coords uv_data)
      | Long uv_coords \<Rightarrow>
          read_shell_uvs s uvs (uv_ids @ [snd uv], AList.update (snd uv) uv_coords uv_data))"

definition get_uv_shell_data :: "scene \<Rightarrow> comp \<Rightarrow> exn + shell_data option" where
  "get_uv_shell_data s uv_component =
     (case border_shell s uv_component of
        [] \<Rightarrow> Inr None
      | uv_components \<Rightarrow>
          (case read_shell_uvs s uv_components ([], []) of
             Inl e \<Rightarrow> Inl e
           | Inr (uv_ids, uv_data) \<Rightarrow>
               let uv_to_vertex = shell_get_uv_to_vertex_mapping s uv_components;
                   sorted_ids = sorted_by_vertex uv_to_vertex uv_ids;
                   id_map = fold (\<lambda>(idx, orig_id) m. m(orig_id \<mapsto> idx))
                              (zip [0..<length sorted_ids] sorted_ids) Map.empty
               in Inr (Some \<lparr>sh_object = fst uv_component, sh_uv_count = length uv_ids,
                             sh_uv_ids = uv_ids, sh_uv_data = uv_data, sh_id_map = id_map,
                             sh_sorted_ids = sorted_ids, sh_uv_to_vertex = uv_to_vertex,
                             sh_center = None, sh_relative_coords = None\<rparr>)))"

text \<open>
  The centre computation shared by copy and paste: the float sums of the stored u and v
  values, each divided by the number of stored points; Python raises on a zero count.
\<close>

definition center_of :: "arith \<Rightarrow> (nat \<times> coord) list \<Rightarrow> exn + coord" where
  "center_of ar uv_positions =
     (let sum_u = f_sum ar (map (\<lambda>(uv_id, data). fst data) uv_positions);
          sum_v = f_sum ar (map (\<lambda>(uv_id, data). snd data) uv_positions);
          count = length uv_positions
      in if count = 0 then Inl ZeroDivisionError
         else Inr (f_div ar sum_u (real count), f_div ar sum_v (real count)))"

text \<open>
  The warnings after which \<^verbatim>\<open>copy_uv_shell\<close> and \<^verbatim>\<open>paste_uv_shell\<close> return
  \<^verbatim>\<open>False\<close>: select UVs first, reading the shell data failed, copy a shell first,
  select target UVs first.
\<close>

datatype shell_warning = SelectUVFirst | GetDataFailed | CopyFirst | SelectTargetFirst

text \<open>
  \<^verbatim>\<open>copy_uv_shell\<close>, as a function of the arithmetic, the scene, the selection and
  the clipboard held by the tool instance; it returns what the call raises (\<open>Inl\<close>), the warning it stops
  with, or \<open>Inr (Inr ())\<close> for \<^verbatim>\<open>True\<close>, and the new clipboard.
  Only the first shell of the selection is copied. The clipboard is assigned before the
  centre is computed, so a division by zero leaves a snapshot without offsets behind.
\<close>

definition copy_uv_shell ::
  "arith \<Rightarrow> scene \<Rightarrow> sel_item list \<Rightarrow> shell_data option
     \<Rightarrow> (exn + shell_warning + unit) \<times> shell_data option" where
  "copy_uv_shell ar s selected_uvs clipboard =
     (case get_selected_uv_shells s selected_uvs of
        None \<Rightarrow> (Inr (Inl SelectUVFirst), clipboard)
      | Some [] \<Rightarrow> (Inr (Inl SelectUVFirst), clipboard)
      | Some (uv_shell # _) \<Rightarrow>
          (case get_uv_shell_data s uv_shell of
             Inl e \<Rightarrow> (Inl e, clipboard)
           | Inr None \<Rightarrow> (Inr (Inl GetDataFailed), None)
           | Inr (Some uv_data) \<Rightarrow>
               (case center_of ar (sh_uv_data uv_data) of
                  Inl e \<Rightarrow> (Inl e, Some uv_data)
                | Inr (center_u, center_v) \<Rightarrow>
                    (Inr (Inr ()),
                     Some (uv_data\<lparr>sh_center := Some (center_u, center_v),
                                   sh_relative_coords :=
                                     Some (map (\<lambda>(uv_id, coords).
                                                  (uv_id, (f_sub ar (fst coords) center_u,
                                                           f_sub ar (snd coords) center_v)))
                                               (sh_uv_data uv_data))\<rparr>)))))"

text \<open>
  The entries of \<^verbatim>\<open>failed_list\<close> of \<^verbatim>\<open>paste_uv_shell\<close>: the 1-based number of the
  shell, and for a count mismatch the target object, the target's count and the source's.
\<close>

datatype shell_failure = NoShellData nat | ShellUVCountMismatch nat node nat nat

text \<open>
  The count test of the loop body of \<^verbatim>\<open>paste_uv_shell\<close>:
  \<^verbatim>\<open>if match_topology and target_data['uv_count'] != self.uv_data['uv_count']\<close>.
\<close>

definition check_uv_count :: "bool \<Rightarrow> shell_data \<Rightarrow> nat \<Rightarrow> shell_data \<Rightarrow> shell_failure option" where
  "check_uv_count match_topology uv_data idx target_data =
     (if match_topology \<and> sh_uv_count target_data \<noteq> sh_uv_count uv_data
      then Some (ShellUVCountMismatch idx (sh_object target_data)
                   (sh_uv_count target_data) (sh_uv_count uv_data))
      else None)"

text \<open>
  The write loop of \<^verbatim>\<open>paste_uv_shell\<close>: target order and source order in step, a source
  index without a stored offset is skipped, the new coordinate is the float sum of the
  target centre and the offset, and a write that raises is caught, printed and not
  counted in \<open>apply_count\<close>.
\<close>

fun apply_relative_coords ::
  "arith \<Rightarrow> node \<Rightarrow> (nat \<times> coord) list option \<Rightarrow> coord \<Rightarrow> nat list \<Rightarrow> nat list
     \<Rightarrow> scene \<times> nat \<Rightarrow> exn + scene \<times> nat" where
  "apply_relative_coords ar obj_name relative_coords target_center [] source_ids acc = Inr acc"
| "apply_relative_coords ar obj_name relative_coords target_center (target_uv_id # target_ids) [] acc
     = Inr acc"
| "apply_relative_coords ar obj_name relative_coords target_center (target_uv_id # target_ids)
       (source_uv_id # source_ids) (s, apply_count) =
     (case relative_coords of
        None \<Rightarrow> Inl KeyError
      | Some rel \<Rightarrow>
          (case map_of rel source_uv_id of
             None \<Rightarrow> apply_relative_coords ar obj_name relative_coords target_center
                       target_ids source_ids (s, apply_count)
           | Some rel_coords \<Rightarrow>
               (case polyEditUV_set s (obj_name, target_uv_id)
                       (f_add ar (fst target_center) (fst rel_coords),
                        f_add ar (snd target_center) (snd rel_coords)) of
                  (True, s') \<Rightarrow> apply_relative_coords ar obj_name relative_coords target_center
                                 target_ids source_ids (s', apply_count + 1)
                | (False, s') \<Rightarrow> apply_relative_coords ar obj_name relative_coords target_center
                                  target_ids source_ids (s', apply_count))))"

text \<open>
  One iteration of the shell loop of \<^verbatim>\<open>paste_uv_shell\<close>: \<open>Inl\<close> inside the result is
  the entry appended to \<^verbatim>\<open>failed_list\<close> before \<^verbatim>\<open>continue\<close>, \<open>Inr\<close> the
  \<^verbatim>\<open>apply_count\<close> of a shell that was written.
\<close>

definition paste_shell_target ::
  "arith \<Rightarrow> shell_data \<Rightarrow> bool \<Rightarrow> scene \<Rightarrow> nat \<Rightarrow> comp
     \<Rightarrow> exn + scene \<times> (shell_failure + nat)" where
  "paste_shell_target ar uv_data match_topology s idx uv_shell =
     (case get_uv_shell_data s uv_shell of
        Inl e \<Rightarrow> Inl e
      | Inr None \<Rightarrow> Inr (s, Inl (NoShellData idx))
      | Inr (Some target_data) \<Rightarrow>
          (case check_uv_count match_topology uv_data idx target_data of
             Some failed_msg \<Rightarrow> Inr (s, Inl failed_msg)
           | None \<Rightarrow>
               (case center_of ar (sh_uv_data target_data) of
                  Inl e \<Rightarrow> Inl e
                | Inr target_center \<Rightarrow>
                    (case apply_relative_coords ar (sh_object target_data) (sh_relative_coords uv_data)
                            target_center (sh_sorted_ids target_data) (sh_sorted_ids uv_data) (s, 0) of
                       Inl e \<Rightarrow> Inl e
                     | Inr (s', apply_count) \<Rightarrow> Inr (s', Inr apply_count)))))"

fun paste_shell_targets ::
  "arith \<Rightarrow> shell_data \<Rightarrow> bool \<Rightarrow> nat \<Rightarrow> comp list \<Rightarrow> scene \<times> nat \<times> shell_failure list
     \<Rightarrow> exn + scene \<times> nat \<times> shell_failure list" where
  "paste_shell_targets ar uv_data match_topology idx [] acc = Inr acc"
| "paste_shell_targets ar uv_data match_topology idx (uv_shell # rest)
       (s, success_count, failed_list) =
     (case paste_shell_target ar uv_data match_topology s idx uv_shell of
        Inl e \<Rightarrow> Inl e
      | Inr (s', Inl failed_msg) \<Rightarrow>
          paste_shell_targets ar uv_data match_topology (idx + 1) rest
            (s', success_count, failed_list @ [failed_msg])
      | Inr (s', Inr apply_count) \<Rightarrow>
          paste_shell_targets ar uv_data match_topology (idx + 1) rest
            (s', success_count + 1, failed_list))"

record shell_report =
  sr_total_shells :: nat
  sr_success_count :: nat
  sr_failed_list :: "shell_failure list"

text \<open>
  \<^verbatim>\<open>paste_uv_shell\<close>: an exception, or the scene afterwards with either the warning
  the call stopped with or the report of the batch; the call returns
  \<open>success_count > 0\<close>.
\<close>

definition paste_uv_shell ::
  "arith \<Rightarrow> shell_data option \<Rightarrow> bool \<Rightarrow> scene \<Rightarrow> sel_item list
     \<Rightarrow> exn + scene \<times> (shell_warning + shell_report)" where
  "paste_uv_shell ar clipboard match_topology s selected_uvs =
     (case clipboard of
        None \<Rightarrow> Inr (s, Inl CopyFirst)
      | Some uv_data \<Rightarrow>
          (case get_selected_uv_shells s selected_uvs of
             None \<Rightarrow> Inr (s, Inl SelectTargetFirst)
           | Some uv_shells \<Rightarrow>
               if uv_shells = [] then Inr (s, Inl SelectTargetFirst)
               else (case paste_shell_targets ar uv_data match_topology 1 uv_shells (s, 0, []) of
                       Inl e \<Rightarrow> Inl e
                     | Inr (s', success_count, failed_list) \<Rightarrow>
                         Inr (s', Inr \<lparr>sr_total_shells = length uv_shells,
                                        sr_success_count = success_count,
                                        sr_failed_list = failed_list\<rparr>))))"

section \<open>Nearest-point snap (Maya\_UV\_Snap.py)\<close>

text \<open>
  What the source reads from \<^verbatim>\<open>cmds.undoInfo(query=True, undoName=True)\<close>: no
  selection command, a selection command other than \<^verbatim>\<open>select -tgl\<close>, or a toggle whose
  last word names the target UV (\<open>None\<close> when \<^verbatim>\<open>cmds.objExists\<close> rejects it).
\<close>

datatype undo_name = NoSelect | SelectOther | SelectTgl "comp option"

datatype snap_warning =
    NothingSelected | TooFewSelected | NoSelectHistory | TargetNotFound | NeedToggle
  | NoSourcePoints | NoTargetShell | SharedPoints nat

datatype snap_event = Snapped comp coord real | TooFar comp real

datatype snap_outcome = Warned snap_warning | Finished "snap_event list"

text \<open>
  The inner search loop: \<open>None\<close> is the initial state \<^verbatim>\<open>min_dist = inf\<close>,
  \<^verbatim>\<open>nearest_point = None\<close>; a target replaces the best one only when strictly closer.
  The distance is the float
  \<^verbatim>\<open>math.sqrt((u - target_u)**2 + (v - target_v)**2)\<close>, five rounded operations.
\<close>

fun nearest_target ::
  "arith \<Rightarrow> coord \<Rightarrow> coord list \<Rightarrow> (real \<times> coord) option \<Rightarrow> (real \<times> coord) option" where
  "nearest_target ar uv [] best = best"
| "nearest_target ar uv (target # rest) best =
     (let dist = f_sqrt ar (f_add ar (f_sqr ar (f_sub ar (fst uv) (fst target)))
                                     (f_sqr ar (f_sub ar (snd uv) (snd target))))
      in if (case best of None \<Rightarrow> True | Some (min_dist, nearest_point) \<Rightarrow> dist < min_dist)
         then nearest_target ar uv rest (Some (dist, target))
         else nearest_target ar uv rest best)"

text \<open>
  \<^verbatim>\<open>u, v = cmds.polyEditUV(uv, q=True)\<close>: unpacking \<^verbatim>\<open>None\<close> raises
  \<^verbatim>\<open>TypeError\<close>, unpacking a list of another length than two raises \<^verbatim>\<open>ValueError\<close>.
\<close>

definition query_pair :: "scene \<Rightarrow> comp \<Rightarrow> exn + coord" where
  "query_pair s uv = (case uv_query s uv of
                        Coords c \<Rightarrow> Inr c
                      | Nothing \<Rightarrow> Inl TypeError
                      | Short \<Rightarrow> Inl ValueError
                      | Long c \<Rightarrow> Inl ValueError
                      | Raises \<Rightarrow> Inl HostError)"

fun collect_target_points :: "scene \<Rightarrow> comp list \<Rightarrow> exn + coord list" where
  "collect_target_points s [] = Inr []"
| "collect_target_points s (uv # uvs) =
     (case query_pair s uv of
        Inl e \<Rightarrow> Inl e
      | Inr c \<Rightarrow> (case collect_target_points s uvs of Inl e \<Rightarrow> Inl e | Inr cs \<Rightarrow> Inr (c # cs)))"

text \<open>
  The loop over the source points: a source point of the target shell is skipped, the
  others are read, compared with every target coordinate, and written only when the
  smallest distance is within the threshold. The write is not inside a \<^verbatim>\<open>try\<close>.
  The call \<^verbatim>\<open>polyEditUV(uv, r=False)\<close> just before the write carries no coordinate and
  is not recorded.
\<close>

fun snap_sources ::
  "arith \<Rightarrow> real \<Rightarrow> comp list \<Rightarrow> coord list \<Rightarrow> comp list \<Rightarrow> scene \<times> snap_event list
     \<Rightarrow> exn + scene \<times> snap_event list" where
  "snap_sources ar snap_threshold target_uvs target_points [] acc = Inr acc"
| "snap_sources ar snap_threshold target_uvs target_points (uv # rest) (s, events) =
     (if uv \<in> set target_uvs
      then snap_sources ar snap_threshold target_uvs target_points rest (s, events)
      else (case query_pair s uv of
              Inl e \<Rightarrow> Inl e
            | Inr c \<Rightarrow>
                (case nearest_target ar c target_points None of
                   None \<Rightarrow> snap_sources ar snap_threshold target_uvs target_points rest (s, events)
                 | Some (min_dist, nearest_point) \<Rightarrow>
                     if min_dist \<le> snap_threshold
                     then (case polyEditUV_set s uv nearest_point of
                             (False, s') \<Rightarrow> Inl HostError
                           | (True, s') \<Rightarrow>
                               snap_sources ar snap_threshold target_uvs target_points rest
                                 (s', events @ [Snapped uv nearest_point min_dist]))
                     else snap_sources ar snap_threshold target_uvs target_points rest
                            (s, events @ [TooFar uv min_dist]))))"

text \<open>
  \<^verbatim>\<open>snap_uv_to_nearest\<close>, with the arithmetic, the threshold global, the scene, the
  selected UV points and the undo name as arguments. Every early \<^verbatim>\<open>return\<close> after a warning is a
  \<open>Warned\<close> outcome with the scene as it was.
\<close>

definition snap_uv_to_nearest ::
  "arith \<Rightarrow> real \<Rightarrow> scene \<Rightarrow> comp list \<Rightarrow> undo_name \<Rightarrow> exn + scene \<times> snap_outcome" where
  "snap_uv_to_nearest ar snap_threshold s selected_uvs selection_history =
     (if selected_uvs = [] then Inr (s, Warned NothingSelected)
      else if length selected_uvs < 2 then Inr (s, Warned TooFewSelected)
      else (case selection_history of
              NoSelect \<Rightarrow> Inr (s, Warned NoSelectHistory)
            | SelectOther \<Rightarrow> Inr (s, Warned NeedToggle)
            | SelectTgl None \<Rightarrow> Inr (s, Warned TargetNotFound)
            | SelectTgl (Some target_uv) \<Rightarrow>
                (case filter (\<lambda>uv. uv \<noteq> target_uv) selected_uvs of
                   [] \<Rightarrow> Inr (s, Warned NoSourcePoints)
                 | first_source # more_sources \<Rightarrow>
                     let source_uvs = first_source # more_sources;
                         target_uvs = border_shell s target_uv
                     in if target_uvs = [] then Inr (s, Warned NoTargetShell)
                        else let source_uvs_shell = border_shell s first_source;
                                 common_uvs = set target_uvs \<inter> set source_uvs_shell
                             in if common_uvs \<noteq> {} then Inr (s, Warned (SharedPoints (card common_uvs)))
                                else (case collect_target_points s target_uvs of
                                        Inl e \<Rightarrow> Inl e
                                      | Inr target_points \<Rightarrow>
                                          (case snap_sources ar snap_threshold target_uvs target_points
                                                  source_uvs (s, []) of
                                             Inl e \<Rightarrow> Inl e
                                           | Inr (s', events) \<Rightarrow> Inr (s', Finished events))))))"

section \<open>Specification-side notions\<close>

text \<open>
  The compatibility check as the specification words it: the metrics are examined in a
  fixed order and the first one whose two values differ is the mismatch, reported with
  the target's value and the source's value.
\<close>

datatype metric = VertexCount | FaceCount | UVCount

definition first_differing :: "(metric \<times> nat \<times> nat) list \<Rightarrow> (metric \<times> nat \<times> nat) option" where
  "first_differing ms = List.find (\<lambda>(m, target_value, source_value). target_value \<noteq> source_value) ms"

fun mesh_mismatch_of :: "mesh_failure \<Rightarrow> (metric \<times> nat \<times> nat) option" where
  "mesh_mismatch_of (NotAMesh n) = None"
| "mesh_mismatch_of (VertexCountMismatch n t src) = Some (VertexCount, t, src)"
| "mesh_mismatch_of (FaceCountMismatch n t src) = Some (FaceCount, t, src)"
| "mesh_mismatch_of (UVCountMismatch n t src) = Some (UVCount, t, src)"

fun shell_mismatch_of :: "shell_failure \<Rightarrow> (metric \<times> nat \<times> nat) option" where
  "shell_mismatch_of (NoShellData idx) = None"
| "shell_mismatch_of (ShellUVCountMismatch idx obj t src) = Some (UVCount, t, src)"

text \<open>
  The positional pairs of a target order and a source order for which the snapshot
  holds a value: the pairs the write loops send to the host, in order.
\<close>

definition paired_writes :: "(nat \<times> 'v) list \<Rightarrow> nat list \<Rightarrow> nat list \<Rightarrow> (nat \<times> 'v) list" where
  "paired_writes uv_data target_ids source_ids =
     List.map_filter (\<lambda>(t, src). map_option (Pair t) (map_of uv_data src))
       (zip target_ids source_ids)"

text \<open>
  The scene after the host has received a list of write commands, one after the other.
\<close>

definition run_writes :: "scene \<Rightarrow> (comp \<times> coord) list \<Rightarrow> scene" where
  "run_writes s ws = fold (\<lambda>(c, xy) s. snd (polyEditUV_set s c xy)) ws s"

text \<open>The failure entry, if any, that one target of a whole-mesh paste produces.\<close>

definition mesh_target_failure :: "mesh_data \<Rightarrow> scene \<Rightarrow> node \<Rightarrow> mesh_failure option" where
  "mesh_target_failure d s obj =
     (case snd (paste_mesh_target d s obj) of Inl f \<Rightarrow> Some f | Inr counts \<Rightarrow> None)"

text \<open>
  The arithmetic mean of a list of points as floats compute it, coordinate by
  coordinate: the float sum from the left, divided by the number of points.
\<close>

definition mean_coord :: "arith \<Rightarrow> coord list \<Rightarrow> coord" where
  "mean_coord ar ps = (f_div ar (f_sum ar (map fst ps)) (real (length ps)),
                       f_div ar (f_sum ar (map snd ps)) (real (length ps)))"

text \<open>
  The coordinates a copy tool keeps of a query result: the first two values of a list of
  at least two.
\<close>

definition usable_coords :: "query \<Rightarrow> coord option" where
  "usable_coords q = (case q of Coords c \<Rightarrow> Some c | Long c \<Rightarrow> Some c | _ \<Rightarrow> None)"

text \<open>
  The coordinates on record after the points of a shell have been read in order: one
  entry per UV index that gave usable coordinates, in the order the indices were first
  read.
\<close>

definition stored_coords :: "scene \<Rightarrow> comp list \<Rightarrow> (nat \<times> coord) list \<Rightarrow> (nat \<times> coord) list" where
  "stored_coords s cs uv_data =
     fold (\<lambda>c ud. case usable_coords (uv_query s c) of
                     Some xy \<Rightarrow> AList.update (snd c) xy ud
                   | None \<Rightarrow> ud) cs uv_data"

text \<open>
  The coordinate the centroid-relative paste owes a target point: the target centroid
  plus the offset of the source coordinate from the source centroid, in float
  arithmetic.
\<close>

definition moved_coord :: "arith \<Rightarrow> coord \<Rightarrow> coord \<Rightarrow> coord \<Rightarrow> coord" where
  "moved_coord ar target_centroid source_centroid xy =
     (f_add ar (fst target_centroid) (f_sub ar (fst xy) (fst source_centroid)),
      f_add ar (snd target_centroid) (f_sub ar (snd xy) (snd source_centroid)))"

text \<open>
  Shell extraction as the specification words it: walk the selected UV points in order;
  a point whose region is empty contributes nothing; otherwise the point starts a shell
  and every later point of its region is dropped.
\<close>

function shell_seeds :: "scene \<Rightarrow> comp list \<Rightarrow> comp list" where
  "shell_seeds s [] = []"
| "shell_seeds s (u # us) =
     (if border_shell s u = [] then shell_seeds s us
      else u # shell_seeds s (filter (\<lambda>v. v \<notin> set (border_shell s u)) us))"
  by pat_completeness auto
termination
  by (relation "measure (\<lambda>(s, us). length us)") (auto simp: less_Suc_eq_le)


text \<open>
  The distance in UV space as floats compute it: the rounded square root of the rounded
  sum of the rounded squares of the rounded differences.
\<close>

definition float_dist :: "arith \<Rightarrow> coord \<Rightarrow> coord \<Rightarrow> real" where
  "float_dist ar a b =
     f_sqrt ar (f_add ar (f_sqr ar (f_sub ar (fst a) (fst b)))
                         (f_sqr ar (f_sub ar (snd a) (snd b))))"


text \<open>
  The observable part of a snap result: the coordinate of one UV point afterwards, the
  write commands the host received, and the outcome.
\<close>

definition snap_view ::
  "comp \<Rightarrow> exn + scene \<times> snap_outcome \<Rightarrow> (query \<times> (comp \<times> coord) list \<times> snap_outcome) option" where
  "snap_view c r = (case r of Inl e \<Rightarrow> None
                            | Inr (s', out) \<Rightarrow> Some (uv_query s' c, edit_calls s', out))"

section \<open>Example data\<close>

definition example_mesh_snapshot :: mesh_data where
  "example_mesh_snapshot =
     \<lparr>m_mesh = ''|src|srcShape'', m_vertex_count = 8, m_face_count = 6, m_uv_count = 14,
      m_uv_data = [], m_uv_to_vertex = Map.empty, m_sorted_uv_ids = []\<rparr>"

definition example_shell_snapshot :: "nat \<Rightarrow> shell_data" where
  "example_shell_snapshot n =
     \<lparr>sh_object = ''pCube1'', sh_uv_count = n, sh_uv_ids = [], sh_uv_data = [],
      sh_id_map = Map.empty, sh_sorted_ids = [], sh_uv_to_vertex = Map.empty,
      sh_center = None, sh_relative_coords = None\<rparr>"

definition example_mesh_scene :: scene where
  "example_mesh_scene =
     \<lparr>uv_query = (\<lambda>c. if c = (''A'', 2) then Raises else Coords (real (snd c), 1)),
      border_shell = (\<lambda>c. []),
      uv_vertex = (\<lambda>c. Some (snd c)),
      uv_writable = (\<lambda>c. c \<noteq> (''B'', 1)),
      edit_calls = [],
      is_mesh = (\<lambda>n. True),
      mesh_shapes = (\<lambda>n. []),
      poly_counts = (\<lambda>n. if n = ''C'' then (4, 1, 3) else (4, 1, 4))\<rparr>"

definition example_shell_scene :: scene where
  "example_shell_scene =
     \<lparr>uv_query = (\<lambda>c. Coords (if fst c = ''P'' then (2 * real (snd c), 0)
                              else (10 + real (snd c), 5))),
      border_shell = (\<lambda>c. if fst c = ''P'' then [(''P'', 0), (''P'', 1)]
                         else if fst c = ''Q'' then [(''Q'', 0), (''Q'', 1)]
                         else if fst c = ''R'' then [(''R'', 0), (''R'', 1), (''R'', 2)]
                         else if fst c = ''T'' then [(''T'', 0), (''T'', 1)]
                         else []),
      uv_vertex = (\<lambda>c. Some (snd c)),
      uv_writable = (\<lambda>c. True),
      edit_calls = [],
      is_mesh = (\<lambda>n. True),
      mesh_shapes = (\<lambda>n. []),
      poly_counts = (\<lambda>n. (0, 0, 0))\<rparr>"

definition example_shell_clipboard :: shell_data where
  "example_shell_clipboard =
     the (snd (copy_uv_shell double_arith example_shell_scene [UV (''P'', 0)] None))"

text \<open>
  A scene with six shells of two points each: \<open>P\<close>, \<open>Q\<close> and \<open>T\<close> are read in full; the
  query of \<open>G.map[1]\<close> returns nothing; the query of \<open>R.map[1]\<close> raises; no point of
  \<open>U\<close> returns coordinates.
\<close>

definition example_faulty_scene :: scene where
  "example_faulty_scene =
     \<lparr>uv_query = (\<lambda>c. if c = (''G'', 1) \<or> fst c = ''U'' then Nothing
                       else if c = (''R'', 1) then Raises
                       else Coords (2 * real (snd c), 0)),
      border_shell = (\<lambda>c. if fst c \<in> {''G'', ''P'', ''Q'', ''R'', ''T'', ''U''}
                         then [(fst c, 0), (fst c, 1)] else []),
      uv_vertex = (\<lambda>c. Some (snd c)),
      uv_writable = (\<lambda>c. True),
      edit_calls = [],
      is_mesh = (\<lambda>n. True),
      mesh_shapes = (\<lambda>n. []),
      poly_counts = (\<lambda>n. (0, 0, 0))\<rparr>"

definition example_gap_clipboard :: shell_data where
  "example_gap_clipboard =
     the (snd (copy_uv_shell double_arith example_faulty_scene [UV (''G'', 0)] None))"

definition example_faulty_clipboard :: shell_data where
  "example_faulty_clipboard =
     the (snd (copy_uv_shell double_arith example_faulty_scene [UV (''P'', 0)] None))"

text \<open>The failure entry, if any, that one target shell of a paste produces.\<close>

definition shell_target_failure ::
  "shell_data \<Rightarrow> bool \<Rightarrow> scene \<Rightarrow> nat \<Rightarrow> comp \<Rightarrow> shell_failure option" where
  "shell_target_failure d match_topology s idx t =
     (case border_shell s t of
        [] \<Rightarrow> Some (NoShellData idx)
      | cs \<Rightarrow> if match_topology \<and> length cs \<noteq> sh_uv_count d
              then Some (ShellUVCountMismatch idx (fst t) (length cs) (sh_uv_count d))
              else None)"

text \<open>
  The coordinates of the snap examples are binary fractions, so that each is a float.
\<close>

definition example_snap_scene :: scene where
  "example_snap_scene =
     \<lparr>uv_query = (\<lambda>c. if c = (''S'', 0) then Coords (0, 0)
                       else if c = (''S'', 5) then Coords (1 / 256, 0)
                       else Coords (1 / 2, 1 / 2)),
      border_shell = (\<lambda>c. if c = (''S'', 0) then [(''S'', 0)]
                         else if c = (''S'', 5) \<or> c = (''S'', 6) then [(''S'', 5), (''S'', 6)]
                         else []),
      uv_vertex = (\<lambda>c. Some (snd c)),
      uv_writable = (\<lambda>c. True),
      edit_calls = [],
      is_mesh = (\<lambda>n. True),
      mesh_shapes = (\<lambda>n. []),
      poly_counts = (\<lambda>n. (0, 0, 0))\<rparr>"


section \<open>Rounding to double precision\<close>

lemma round_even_of_int [simp]: "round_even (of_int m) = m"
  by (simp add: round_even_def)

lemma round_even_near:
  "0 \<le> r \<Longrightarrow> r < 1 / 2 \<Longrightarrow> round_even (of_int m + r) = m"
proof -
  assume r: "0 \<le> r" "r < 1 / 2"
  then have "\<lfloor>of_int m + r\<rfloor> = m" by (simp add: floor_unique)
  then show ?thesis using r by (simp add: round_even_def)
qed

lemma round_even_ge: "of_int n \<le> y \<Longrightarrow> n \<le> round_even y"
proof -
  assume "of_int n \<le> y"
  then have "n \<le> \<lfloor>y\<rfloor>" by (simp add: le_floor_iff)
  then show ?thesis by (auto simp: round_even_def Let_def)
qed

lemma floor_log2_eq:
  assumes "2 powi k \<le> x" "x < 2 powi (k + 1)"
  shows "\<lfloor>log 2 x\<rfloor> = k"
proof -
  have "(0::real) < 2 powi k" by simp
  with assms(1) have pos: "0 < x" by linarith
  have a: "2 powr (of_int k) = (2::real) powi k"
    by (simp add: powr_real_of_int')
  have b: "2 powr (of_int k + 1) = (2::real) powi (k + 1)"
    using powr_real_of_int' [of 2 "k + 1"] by simp
  have "2 powr (of_int k) \<le> x \<and> x < 2 powr (of_int k + 1)"
    unfolding a b using assms by simp
  then show ?thesis
    using floor_log_eq_powr_iff [of x 2 k] pos by simp
qed

lemma round_double_zero [simp]: "round_double 0 = 0"
  by (simp add: round_double_def)

lemma round_double_normal:
  assumes x: "x = (of_int m + r) * 2 powi e"
      and m: "2 ^ 52 \<le> m" "m < 2 ^ 53"
      and r: "0 \<le> r" "r < 1 / 2"
      and e: "- 1074 \<le> e"
  shows "round_double x = of_int m * 2 powi e"
proof -
  have p: "(0::real) < 2 powi e" by simp
  have mr: "2 ^ 52 \<le> of_int m + r" "of_int m + r < 2 ^ 53"
  proof -
    have "(2::real) ^ 52 \<le> of_int m" using m(1) by (metis of_int_le_iff of_int_numeral of_int_power)
    then show "2 ^ 52 \<le> of_int m + r" using r by linarith
    have "m + 1 \<le> 2 ^ 53" using m(2) by simp
    then have "of_int (m + 1) \<le> (2::real) ^ 53" by (metis of_int_le_iff of_int_numeral of_int_power)
    then show "of_int m + r < 2 ^ 53" using r by simp
  qed
  have xpos: "0 < x" unfolding x using mr p by (simp add: zero_less_mult_iff)
  have lo: "2 powi (e + 52) \<le> x"
  proof -
    have "(2::real) powi (e + 52) = 2 ^ 52 * 2 powi e"
      by (simp add: power_int_add)
    also have "\<dots> \<le> (of_int m + r) * 2 powi e"
      using mr(1) p by (simp add: mult_right_mono)
    finally show ?thesis unfolding x .
  qed
  have hi: "x < 2 powi (e + 52 + 1)"
  proof -
    have "(of_int m + r) * 2 powi e < 2 ^ 53 * 2 powi e"
      using mr(2) p by (simp add: mult_strict_right_mono)
    also have "\<dots> = (2::real) powi (e + 52 + 1)"
      by (simp add: power_int_add)
    finally show ?thesis unfolding x .
  qed
  have ax: "\<bar>x\<bar> = x" using xpos by simp
  have fl: "\<lfloor>log 2 \<bar>x\<bar>\<rfloor> = e + 52"
    unfolding ax by (rule floor_log2_eq [OF lo hi])
  have mx: "max (e + 52) (- 1022) - 52 = e" using e by simp
  have q: "x / 2 powi e = of_int m + r" unfolding x by simp
  have "round_double x = of_int (round_even (x / 2 powi e)) * 2 powi e"
    unfolding round_double_def Let_def fl mx using xpos by simp
  then show ?thesis
    unfolding q round_even_near [OF r] .
qed

lemma round_double_exact:
  assumes x: "x = of_int m * 2 powi e"
      and m: "2 ^ 52 \<le> \<bar>m\<bar>" "\<bar>m\<bar> < 2 ^ 53"
      and e: "- 1074 \<le> e"
  shows "round_double x = x"
proof -
  have p: "(0::real) < 2 powi e" by simp
  have am: "(2::real) ^ 52 \<le> \<bar>of_int m\<bar>" "\<bar>of_int m\<bar> < (2::real) ^ 53"
  proof -
    have "(2::real) ^ 52 \<le> of_int \<bar>m\<bar>" using m(1) by (metis of_int_le_iff of_int_numeral of_int_power)
    then show "(2::real) ^ 52 \<le> \<bar>of_int m\<bar>" by simp
    have "of_int \<bar>m\<bar> < (2::real) ^ 53" using m(2) by (metis of_int_less_iff of_int_numeral of_int_power)
    then show "\<bar>of_int m\<bar> < (2::real) ^ 53" by simp
  qed
  have ax: "\<bar>x\<bar> = \<bar>of_int m\<bar> * 2 powi e" unfolding x by (simp add: abs_mult)
  have xne: "x \<noteq> 0" using am(1) ax p by (smt (verit) mult_pos_pos zero_less_power)
  have lo: "2 powi (e + 52) \<le> \<bar>x\<bar>"
  proof -
    have "(2::real) powi (e + 52) = 2 ^ 52 * 2 powi e"
      by (simp add: power_int_add)
    also have "\<dots> \<le> \<bar>of_int m\<bar> * 2 powi e"
      using am(1) p by (simp add: mult_right_mono)
    finally show ?thesis unfolding ax .
  qed
  have hi: "\<bar>x\<bar> < 2 powi (e + 52 + 1)"
  proof -
    have "\<bar>of_int m\<bar> * 2 powi e < (2::real) ^ 53 * 2 powi e"
      using am(2) p by (simp add: mult_strict_right_mono)
    also have "\<dots> = (2::real) powi (e + 52 + 1)"
      by (simp add: power_int_add)
    finally show ?thesis unfolding ax .
  qed
  have fl: "\<lfloor>log 2 \<bar>x\<bar>\<rfloor> = e + 52"
    by (rule floor_log2_eq [OF lo hi])
  have mx: "max (e + 52) (- 1022) - 52 = e" using e by simp
  have q: "x / 2 powi e = of_int m" unfolding x by simp
  have "round_double x = of_int (round_even (x / 2 powi e)) * 2 powi e"
    unfolding round_double_def Let_def fl mx using xne by simp
  also have "\<dots> = of_int m * 2 powi e"
    unfolding q round_even_of_int ..
  finally show ?thesis unfolding x .
qed

lemma round_double_ge:
  assumes "2 powi k \<le> x" "- 1022 \<le> k"
  shows "2 powi k \<le> round_double x"
proof -
  have "(0::real) < 2 powi k" by simp
  with assms(1) have xpos: "0 < x" by linarith
  define e where "e = \<lfloor>log 2 \<bar>x\<bar>\<rfloor>"
  have ke: "k \<le> e"
  proof -
    have "2 powr (of_int k) \<le> x" using assms(1) by (simp add: powr_real_of_int')
    then have "of_int k \<le> log 2 x" using xpos by (simp add: le_log_iff)
    then show ?thesis unfolding e_def using xpos by (simp add: le_floor_iff)
  qed
  have mx: "max e (- 1022) = e" using ke assms(2) by simp
  have elo: "2 powi e \<le> x"
  proof -
    have "of_int e \<le> log 2 x" unfolding e_def using xpos by simp
    then have "2 powr (of_int e) \<le> x" using xpos by (simp add: le_log_iff)
    then show ?thesis by (simp add: powr_real_of_int')
  qed
  have u: "(0::real) < 2 powi (e - 52)" by simp
  have "(2::real) ^ 52 * 2 powi (e - 52) = 2 powi e"
    using power_int_add [of "2::real" 52 "e - 52"] by simp
  then have "(2::real) ^ 52 \<le> x / 2 powi (e - 52)"
    using elo u by (simp add: pos_le_divide_eq)
  then have "of_int (2 ^ 52) \<le> x / 2 powi (e - 52)" by simp
  then have "2 ^ 52 \<le> round_even (x / 2 powi (e - 52))" by (rule round_even_ge)
  then have "(2::real) ^ 52 \<le> of_int (round_even (x / 2 powi (e - 52)))"
    by (metis of_int_le_iff of_int_numeral of_int_power)
  then have "(2::real) ^ 52 * 2 powi (e - 52) \<le> of_int (round_even (x / 2 powi (e - 52))) * 2 powi (e - 52)"
    using u by (simp add: mult_right_mono)
  then have "(2::real) powi e \<le> of_int (round_even (x / 2 powi (e - 52))) * 2 powi (e - 52)"
    using \<open>(2::real) ^ 52 * 2 powi (e - 52) = 2 powi e\<close> by linarith
  moreover have "(2::real) powi k \<le> 2 powi e"
    using ke by (simp add: power_int_increasing)
  ultimately have "(2::real) powi k \<le> of_int (round_even (x / 2 powi (e - 52))) * 2 powi (e - 52)"
    by linarith
  moreover have "round_double x = of_int (round_even (x / 2 powi (e - 52))) * 2 powi (e - 52)"
    unfolding round_double_def Let_def e_def [symmetric] mx using xpos by simp
  ultimately show ?thesis by simp
qed

text \<open>The values of the examples are floats: rounding returns them unchanged.\<close>

lemma round_double_values:
  "round_double 1 = 1"
  "round_double (- 1) = - 1"
  "round_double 2 = 2"
  "round_double 5 = 5"
  "round_double 10 = 10"
  "round_double 21 = 21"
  "round_double (21 / 2) = 21 / 2"
  "round_double (19 / 2) = 19 / 2"
  "round_double (23 / 2) = 23 / 2"
  "round_double (1 / 256) = 1 / 256"
  "round_double (- (1 / 256)) = - (1 / 256)"
  "round_double (1 / 65536) = 1 / 65536"
  "round_double (1 / 2) = 1 / 2"
  "round_double (- (1 / 2)) = - (1 / 2)"
  "round_double (1 / 4) = 1 / 4"
  "round_double (1 / 16) = 1 / 16"
  "round_double (- (1 / 16)) = - (1 / 16)"
  "round_double (1 / 2 ^ 60) = 1 / 2 ^ 60"
  "round_double (1 / 2 ^ 120) = 1 / 2 ^ 120"
proof -
  show "round_double 1 = 1"
    by (rule round_double_exact [of _ "4503599627370496" "- 52"]) simp_all
  show "round_double (- 1) = - 1"
    by (rule round_double_exact [of _ "- 4503599627370496" "- 52"]) simp_all
  show "round_double 2 = 2"
    by (rule round_double_exact [of _ "4503599627370496" "- 51"]) simp_all
  show "round_double 5 = 5"
    by (rule round_double_exact [of _ "5629499534213120" "- 50"]) simp_all
  show "round_double 10 = 10"
    by (rule round_double_exact [of _ "5629499534213120" "- 49"]) simp_all
  show "round_double 21 = 21"
    by (rule round_double_exact [of _ "5910974510923776" "- 48"]) simp_all
  show "round_double (21 / 2) = 21 / 2"
    by (rule round_double_exact [of _ "5910974510923776" "- 49"]) simp_all
  show "round_double (19 / 2) = 19 / 2"
    by (rule round_double_exact [of _ "5348024557502464" "- 49"]) simp_all
  show "round_double (23 / 2) = 23 / 2"
    by (rule round_double_exact [of _ "6473924464345088" "- 49"]) simp_all
  show "round_double (1 / 256) = 1 / 256"
    by (rule round_double_exact [of _ "4503599627370496" "- 60"]) simp_all
  show "round_double (- (1 / 256)) = - (1 / 256)"
    by (rule round_double_exact [of _ "- 4503599627370496" "- 60"]) simp_all
  show "round_double (1 / 65536) = 1 / 65536"
    by (rule round_double_exact [of _ "4503599627370496" "- 68"]) simp_all
  show "round_double (1 / 2) = 1 / 2"
    by (rule round_double_exact [of _ "4503599627370496" "- 53"]) simp_all
  show "round_double (- (1 / 2)) = - (1 / 2)"
    by (rule round_double_exact [of _ "- 4503599627370496" "- 53"]) simp_all
  show "round_double (1 / 4) = 1 / 4"
    by (rule round_double_exact [of _ "4503599627370496" "- 54"]) simp_all
  show "round_double (1 / 16) = 1 / 16"
    by (rule round_double_exact [of _ "4503599627370496" "- 56"]) simp_all
  show "round_double (- (1 / 16)) = - (1 / 16)"
    by (rule round_double_exact [of _ "- 4503599627370496" "- 56"]) simp_all
  show "round_double (1 / 2 ^ 60) = 1 / 2 ^ 60"
    by (rule round_double_exact [of _ "4503599627370496" "- 112"]) simp_all
  show "round_double (1 / 2 ^ 120) = 1 / 2 ^ 120"
    by (rule round_double_exact [of _ "4503599627370496" "- 172"]) simp_all
qed

section \<open>Properties of the ordering\<close>

lemma sorted_by_vertex_sorted:
  "sorted (map (anchor_key m) (sorted_by_vertex m xs))"
  by (simp add: sorted_by_vertex_def)

lemma length_sorted_by_vertex: "length (sorted_by_vertex m xs) = length xs"
  by (simp add: sorted_by_vertex_def)

lemma set_sorted_by_vertex: "set (sorted_by_vertex m xs) = set xs"
  by (simp add: sorted_by_vertex_def)

lemma distinct_sorted_by_vertex: "distinct (sorted_by_vertex m xs) = distinct xs"
  by (simp add: sorted_by_vertex_def)

text \<open>
  Claim C2. The vertex-anchored ordering returns a permutation of the UV indices it is
  given (the same multiset, nothing added or dropped), and ordering its own output again
  gives the same sequence.
\<close>

theorem order_permutation_idempotent:
  "mset (sorted_by_vertex anchor uv_ids) = mset uv_ids \<and>
   sorted_by_vertex anchor (sorted_by_vertex anchor uv_ids) = sorted_by_vertex anchor uv_ids"
proof
  show "mset (sorted_by_vertex anchor uv_ids) = mset uv_ids"
    by (simp add: sorted_by_vertex_def)
next
  have "sorted (map (anchor_key anchor) (sort_key (anchor_key anchor) uv_ids))"
    by simp
  then show "sorted_by_vertex anchor (sorted_by_vertex anchor uv_ids)
             = sorted_by_vertex anchor uv_ids"
    unfolding sorted_by_vertex_def by (rule sort_key_id_if_sorted)
qed

text \<open>
  Claim C6, as stated, fails: UV points 5 and 3 both sit on vertex 1, and the ordering
  returns them as enumerated, the larger index first when the input has it first.
\<close>

theorem tie_break_counterexample:
  "anchor_key [5 \<mapsto> 1, 3 \<mapsto> 1] 5 = anchor_key [5 \<mapsto> 1, 3 \<mapsto> 1] 3 \<and>
   sorted_by_vertex [5 \<mapsto> 1, 3 \<mapsto> 1] [5, 3] = [5, 3] \<and>
   sorted_by_vertex [5 \<mapsto> 1, 3 \<mapsto> 1] [3, 5] = [3, 5]"
  by (simp add: sorted_by_vertex_def anchor_key_def)

text \<open>
  Claim C6, amended. UV points anchored to the same vertex keep the relative order in
  which the input enumerated them; so within one vertex the smaller UV index comes first
  whenever the input is enumerated in ascending index order, which is what whole-mesh
  mode does with \<^verbatim>\<open>range(uv_count)\<close>.
\<close>

theorem tie_break_stable:
  "filter (\<lambda>y. anchor_key anchor y = k) (sorted_by_vertex anchor uv_ids)
     = filter (\<lambda>y. anchor_key anchor y = k) uv_ids \<and>
   (sorted uv_ids \<longrightarrow>
      sorted (filter (\<lambda>y. anchor_key anchor y = k) (sorted_by_vertex anchor uv_ids)))"
proof -
  have st: "filter (\<lambda>y. anchor_key anchor y = k) (sorted_by_vertex anchor uv_ids)
     = filter (\<lambda>y. anchor_key anchor y = k) uv_ids"
    unfolding sorted_by_vertex_def by (rule sort_key_stable)
  show ?thesis
    by (simp add: st sorted_wrt_filter)
qed

theorem tie_break_stable_witness:
  "sorted [0, 1, 2, 3 :: nat] \<and>
   filter (\<lambda>y. anchor_key [0 \<mapsto> 7, 1 \<mapsto> 4, 2 \<mapsto> 7, 3 \<mapsto> 4] y = 7)
     (sorted_by_vertex [0 \<mapsto> 7, 1 \<mapsto> 4, 2 \<mapsto> 7, 3 \<mapsto> 4] [0, 1, 2, 3]) = [0, 2] \<and>
   sorted (filter (\<lambda>y. anchor_key [0 \<mapsto> 7, 1 \<mapsto> 4, 2 \<mapsto> 7, 3 \<mapsto> 4] y = 7)
     (sorted_by_vertex [0 \<mapsto> 7, 1 \<mapsto> 4, 2 \<mapsto> 7, 3 \<mapsto> 4] [0, 1, 2, 3]))"
  using tie_break_stable [of "[0 \<mapsto> 7, 1 \<mapsto> 4, 2 \<mapsto> 7, 3 \<mapsto> 4]" 7 "[0, 1, 2, 3]"]
  by (simp add: anchor_key_def)

section \<open>The topology check\<close>

text \<open>
  Claim C3. A target whose counts equal the source's passes the check. When the counts
  differ the check fails with exactly one mismatch: the first differing metric in the
  order vertex count, face count, UV count for whole meshes, and the UV count for shells,
  together with the target's and the source's value. The result is a single optional
  entry, so mismatches are never aggregated.
\<close>

theorem topology_check:
  "check_topology d n (m_vertex_count d, m_face_count d, m_uv_count d) = None \<and>
   (sh_uv_count td = sh_uv_count sd \<longrightarrow> check_uv_count strict sd idx td = None) \<and>
   ((tv, tf, tu) \<noteq> (m_vertex_count d, m_face_count d, m_uv_count d) \<longrightarrow>
      (\<exists>f. check_topology d n (tv, tf, tu) = Some f \<and>
           mesh_mismatch_of f \<noteq> None \<and>
           mesh_mismatch_of f =
             first_differing [(VertexCount, tv, m_vertex_count d),
                              (FaceCount, tf, m_face_count d),
                              (UVCount, tu, m_uv_count d)])) \<and>
   (sh_uv_count td \<noteq> sh_uv_count sd \<longrightarrow>
      (\<exists>f. check_uv_count True sd idx td = Some f \<and>
           shell_mismatch_of f \<noteq> None \<and>
           shell_mismatch_of f = first_differing [(UVCount, sh_uv_count td, sh_uv_count sd)]))"
  by (auto simp: check_topology_def check_uv_count_def first_differing_def)

theorem topology_check_witness:
  "(9, 6, 12) \<noteq> (m_vertex_count example_mesh_snapshot, m_face_count example_mesh_snapshot,
                   m_uv_count example_mesh_snapshot) \<and>
   sh_uv_count (example_shell_snapshot 3) \<noteq> sh_uv_count (example_shell_snapshot 4) \<and>
   sh_uv_count (example_shell_snapshot 4) = sh_uv_count (example_shell_snapshot 4) \<and>
   check_uv_count True (example_shell_snapshot 4) 2 (example_shell_snapshot 4) = None \<and>
   (\<exists>f. check_topology example_mesh_snapshot ''cube'' (9, 6, 12) = Some f \<and>
        mesh_mismatch_of f = Some (VertexCount, 9, 8)) \<and>
   (\<exists>f. check_uv_count True (example_shell_snapshot 4) 2 (example_shell_snapshot 3) = Some f \<and>
        shell_mismatch_of f = Some (UVCount, 3, 4))"
  using topology_check [of example_mesh_snapshot "''cube''" "example_shell_snapshot 3"
      "example_shell_snapshot 4" True 2 9 6 12]
    topology_check [of example_mesh_snapshot "''cube''" "example_shell_snapshot 4"
      "example_shell_snapshot 4" True 2 9 6 12]
  by (simp add: example_mesh_snapshot_def example_shell_snapshot_def first_differing_def) blast

section \<open>Properties of the write loops\<close>

lemma polyEditUV_set_static:
  "polyEditUV_set s c xy = (b, s') \<Longrightarrow>
     uv_writable s' = uv_writable s \<and> border_shell s' = border_shell s \<and> uv_vertex s' = uv_vertex s \<and>
     is_mesh s' = is_mesh s \<and> mesh_shapes s' = mesh_shapes s \<and> poly_counts s' = poly_counts s \<and>
     edit_calls s' = edit_calls s @ [(c, xy)] \<and> b = uv_writable s c"
  by (auto simp: polyEditUV_set_def Let_def split: if_splits)

lemma paired_writes_Nil [simp]: "paired_writes ud [] ss = []" "paired_writes ud ts [] = []"
  by (simp_all add: paired_writes_def List.map_filter_simps)

lemma paired_writes_Cons:
  "paired_writes ud (t # ts) (src # ss) =
     (case map_of ud src of None \<Rightarrow> paired_writes ud ts ss
                          | Some xy \<Rightarrow> (t, xy) # paired_writes ud ts ss)"
  by (simp add: paired_writes_def List.map_filter_simps split: option.splits)

lemma run_writes_Nil [simp]: "run_writes s [] = s"
  by (simp add: run_writes_def)

lemma run_writes_Cons:
  "run_writes s ((c, xy) # ws) = run_writes (snd (polyEditUV_set s c xy)) ws"
  by (simp add: run_writes_def)

lemma run_writes_append: "run_writes s (ws @ vs) = run_writes (run_writes s ws) vs"
  by (simp add: run_writes_def)

lemma run_writes_static:
  "uv_writable (run_writes s ws) = uv_writable s \<and>
   border_shell (run_writes s ws) = border_shell s \<and>
   uv_vertex (run_writes s ws) = uv_vertex s \<and>
   is_mesh (run_writes s ws) = is_mesh s \<and>
   mesh_shapes (run_writes s ws) = mesh_shapes s \<and>
   poly_counts (run_writes s ws) = poly_counts s \<and>
   edit_calls (run_writes s ws) = edit_calls s @ ws"
proof (induction ws arbitrary: s)
  case Nil
  then show ?case by simp
next
  case (Cons w ws)
  obtain c xy where w: "w = (c, xy)" by (cases w)
  obtain b s1 where p: "polyEditUV_set s c xy = (b, s1)" by (cases "polyEditUV_set s c xy")
  from polyEditUV_set_static [OF p] Cons [of s1] show ?case
    by (simp add: w run_writes_Cons p)
qed

lemma apply_uv_data_run:
  "apply_uv_data mesh ud ts ss (s, ac, ec) =
     (run_writes s (map (\<lambda>(t, xy). ((mesh, t), xy)) (paired_writes ud ts ss)),
      ac + length (filter (\<lambda>(t, xy). uv_writable s (mesh, t)) (paired_writes ud ts ss)),
      ec + length (filter (\<lambda>(t, xy). \<not> uv_writable s (mesh, t)) (paired_writes ud ts ss)))"
proof (induction mesh ud ts ss "(s, ac, ec)" arbitrary: s ac ec rule: apply_uv_data.induct)
  case (1 target_mesh uv_data source_ids)
  then show ?case by simp
next
  case (2 target_mesh uv_data target_uv_id target_ids)
  then show ?case by simp
next
  case (3 target_mesh uv_data target_uv_id target_ids source_uv_id source_ids s apply_count error_count)
  show ?case
  proof (cases "map_of uv_data source_uv_id")
    case None
    with 3(1) show ?thesis by (simp add: paired_writes_Cons)
  next
    case (Some xy)
    obtain b s1 where w: "polyEditUV_set s (target_mesh, target_uv_id) xy = (b, s1)"
      by (cases "polyEditUV_set s (target_mesh, target_uv_id) xy")
    note st = polyEditUV_set_static [OF w]
    show ?thesis
    proof (cases b)
      case True
      with 3(2)[OF Some _ ] Some w st show ?thesis
        by (simp add: paired_writes_Cons run_writes_Cons)
    next
      case False
      with 3(3)[OF Some _ ] Some w st show ?thesis
        by (simp add: paired_writes_Cons run_writes_Cons)
    qed
  qed
qed

lemma paired_writes_total:
  "\<forall>src \<in> set ss. map_of ud src \<noteq> None \<Longrightarrow>
     paired_writes ud ts ss = map (\<lambda>(t, src). (t, the (map_of ud src))) (zip ts ss)"
proof (induction ts arbitrary: ss)
  case Nil
  then show ?case by simp
next
  case (Cons t ts)
  then show ?case by (cases ss) (auto simp: paired_writes_Cons)
qed

lemma length_paired_writes_le: "length (paired_writes ud ts ss) \<le> min (length ts) (length ss)"
proof (induction ts arbitrary: ss)
  case Nil
  then show ?case by simp
next
  case (Cons t ts)
  show ?case
  proof (cases ss)
    case Nil
    then show ?thesis by simp
  next
    case (Cons src ss')
    from Cons.IH [of ss'] have "length (paired_writes ud ts ss') \<le> min (length ts) (length ss')" .
    then show ?thesis
      unfolding Cons by (cases "map_of ud src"; simp add: paired_writes_Cons; linarith)
  qed
qed

lemma map_of_read_mesh_uv_one:
  "map_of (read_mesh_uv s mesh x acc) i =
     (if i = x
      then (case uv_query s (mesh, x) of
              Coords xy \<Rightarrow> Some xy | Long xy \<Rightarrow> Some xy | Nothing \<Rightarrow> map_of acc i
            | Short \<Rightarrow> map_of acc i | Raises \<Rightarrow> Some (0, 0))
      else map_of acc i)"
  by (cases "uv_query s (mesh, x)") (simp_all add: read_mesh_uv_def update_conv)

lemma map_of_read_mesh_uv:
  "map_of (fold (read_mesh_uv s mesh) ids acc) i =
     (if i \<in> set ids
      then (case uv_query s (mesh, i) of
              Coords xy \<Rightarrow> Some xy | Long xy \<Rightarrow> Some xy | Nothing \<Rightarrow> map_of acc i
            | Short \<Rightarrow> map_of acc i | Raises \<Rightarrow> Some (0, 0))
      else map_of acc i)"
proof (induction ids arbitrary: acc)
  case Nil
  then show ?case by simp
next
  case (Cons x xs)
  have "map_of (fold (read_mesh_uv s mesh) (x # xs) acc) i
          = map_of (fold (read_mesh_uv s mesh) xs (read_mesh_uv s mesh x acc)) i"
    by simp
  also have "\<dots> = (if i \<in> set xs
      then (case uv_query s (mesh, i) of
              Coords xy \<Rightarrow> Some xy | Long xy \<Rightarrow> Some xy
            | Nothing \<Rightarrow> map_of (read_mesh_uv s mesh x acc) i
            | Short \<Rightarrow> map_of (read_mesh_uv s mesh x acc) i
            | Raises \<Rightarrow> Some (0, 0))
      else map_of (read_mesh_uv s mesh x acc) i)"
    by (rule Cons)
  finally show ?case
    by (cases "uv_query s (mesh, i)") (auto simp: map_of_read_mesh_uv_one)
qed

lemma mesh_sorted_ids_have_data:
  "src \<in> set (m_sorted_uv_ids (get_mesh_uv_data s0 mesh)) \<Longrightarrow>
     map_of (m_uv_data (get_mesh_uv_data s0 mesh)) src \<noteq> None"
  by (cases "poly_counts s0 mesh")
     (auto simp: get_mesh_uv_data_def Let_def set_sorted_by_vertex map_of_eq_None_iff)

lemma uv_query_polyEditUV_set:
  "uv_query (snd (polyEditUV_set s c xy)) c' =
     (if c' = c \<and> uv_writable s c then Coords xy else uv_query s c')"
  by (simp add: polyEditUV_set_def Let_def)

lemma uv_writable_polyEditUV_set:
  "uv_writable (snd (polyEditUV_set s c xy)) = uv_writable s"
  by (simp add: polyEditUV_set_def Let_def)

lemma uv_query_run_writes_other:
  "c \<notin> fst ` set ws \<Longrightarrow> uv_query (run_writes s ws) c = uv_query s c"
proof (induction ws arbitrary: s)
  case Nil
  then show ?case by simp
next
  case (Cons w ws)
  obtain c1 xy where w: "w = (c1, xy)" by (cases w)
  from Cons.prems have "c \<noteq> c1" "c \<notin> fst ` set ws" by (auto simp: w)
  then show ?case
    by (simp add: w run_writes_Cons Cons.IH uv_query_polyEditUV_set)
qed

lemma uv_query_run_writes_hit:
  "distinct (map fst ws) \<Longrightarrow> (c, xy) \<in> set ws \<Longrightarrow> uv_writable s c \<Longrightarrow>
     uv_query (run_writes s ws) c = Coords xy"
proof (induction ws arbitrary: s)
  case Nil
  then show ?case by simp
next
  case (Cons w ws)
  obtain c1 xy1 where w: "w = (c1, xy1)" by (cases w)
  let ?s1 = "snd (polyEditUV_set s c1 xy1)"
  show ?case
  proof (cases "(c, xy) = w")
    case True
    with Cons.prems have "c \<notin> fst ` set ws" by (auto simp: w)
    then have "uv_query (run_writes ?s1 ws) c = uv_query ?s1 c"
      by (rule uv_query_run_writes_other)
    with True Cons.prems(3) show ?thesis
      by (simp add: w run_writes_Cons uv_query_polyEditUV_set)
  next
    case False
    with Cons.prems have "distinct (map fst ws)" "(c, xy) \<in> set ws" by auto
    moreover from Cons.prems(3) have "uv_writable ?s1 c"
      by (simp add: uv_writable_polyEditUV_set)
    ultimately have "uv_query (run_writes ?s1 ws) c = Coords xy"
      by (rule Cons.IH)
    then show ?thesis by (simp add: w run_writes_Cons)
  qed
qed

lemma apply_relative_coords_run:
  "apply_relative_coords ar obj (Some rel) ctr ts ss (s, ac) =
     Inr (run_writes s (map (\<lambda>(t, r). ((obj, t), (f_add ar (fst ctr) (fst r),
                                                     f_add ar (snd ctr) (snd r))))
                          (paired_writes rel ts ss)),
          ac + length (filter (\<lambda>(t, r). uv_writable s (obj, t)) (paired_writes rel ts ss)))"
proof (induction ar obj "Some rel" ctr ts ss "(s, ac)" arbitrary: s ac
         rule: apply_relative_coords.induct)
  case (1 ar obj_name target_center source_ids)
  then show ?case by simp
next
  case (2 ar obj_name target_center target_uv_id target_ids)
  then show ?case by simp
next
  case (3 ar obj_name target_center target_uv_id target_ids source_uv_id source_ids s apply_count)
  show ?case
  proof (cases "map_of rel source_uv_id")
    case None
    with 3(1) show ?thesis by (simp add: paired_writes_Cons)
  next
    case (Some r)
    let ?xy = "(f_add ar (fst target_center) (fst r), f_add ar (snd target_center) (snd r))"
    obtain b s1 where w: "polyEditUV_set s (obj_name, target_uv_id) ?xy = (b, s1)"
      by (cases "polyEditUV_set s (obj_name, target_uv_id) ?xy")
    note st = polyEditUV_set_static [OF w]
    show ?thesis
    proof (cases b)
      case True
      with 3(2)[OF refl Some _ ] Some w st show ?thesis
        by (simp add: paired_writes_Cons run_writes_Cons)
    next
      case False
      with 3(3)[OF refl Some _ ] Some w st show ?thesis
        by (simp add: paired_writes_Cons run_writes_Cons)
    qed
  qed
qed

lemma map_fst_paired_writes_total:
  "\<forall>src \<in> set ss. map_of ud src \<noteq> None \<Longrightarrow>
     map fst (paired_writes ud ts ss) = take (min (length ts) (length ss)) ts"
proof (induction ts arbitrary: ss)
  case Nil
  then show ?case by simp
next
  case (Cons t ts)
  then show ?case by (cases ss) (auto simp: paired_writes_Cons)
qed

lemma length_alist_update: "length (AList.update k v al) \<le> Suc (length al)"
  by (induction al) auto

lemma length_read_mesh_uv:
  "length (fold (read_mesh_uv s mesh) ids acc) \<le> length acc + length ids"
proof (induction ids arbitrary: acc)
  case Nil
  then show ?case by simp
next
  case (Cons x xs)
  have "length (read_mesh_uv s mesh x acc) \<le> Suc (length acc)"
    by (cases "uv_query s (mesh, x)") (simp_all add: read_mesh_uv_def length_alist_update)
  with Cons [of "read_mesh_uv s mesh x acc"] show ?case by simp
qed

lemma mesh_snapshot_fields:
  "m_vertex_count (get_mesh_uv_data s0 mesh) = fst (poly_counts s0 mesh)"
  "m_face_count (get_mesh_uv_data s0 mesh) = fst (snd (poly_counts s0 mesh))"
  "m_uv_count (get_mesh_uv_data s0 mesh) = uv_count_of s0 mesh"
  "m_uv_data (get_mesh_uv_data s0 mesh) = fold (read_mesh_uv s0 mesh) [0..<uv_count_of s0 mesh] []"
  "m_sorted_uv_ids (get_mesh_uv_data s0 mesh) =
     sorted_by_vertex (transfer_get_uv_to_vertex_mapping s0 mesh)
       (map fst (m_uv_data (get_mesh_uv_data s0 mesh)))"
  by (cases "poly_counts s0 mesh"; simp add: get_mesh_uv_data_def Let_def uv_count_of_def)+

lemma length_mesh_sorted_ids:
  "length (m_sorted_uv_ids (get_mesh_uv_data s0 mesh)) \<le> m_uv_count (get_mesh_uv_data s0 mesh)"
  using length_read_mesh_uv [of s0 mesh "[0..<uv_count_of s0 mesh]" "[]"]
  by (simp add: mesh_snapshot_fields length_sorted_by_vertex)

lemma check_topology_None:
  "check_topology d n c = None \<longleftrightarrow> c = (m_vertex_count d, m_face_count d, m_uv_count d)"
  by (cases c) (auto simp: check_topology_def)

lemma paste_mesh_target_pass:
  assumes "target_mesh_of s obj = Some tm"
      and "check_topology d (short_name obj) (poly_counts s tm) = None"
  shows "paste_mesh_target d s obj =
     (run_writes s (map (\<lambda>(t, xy). ((tm, t), xy))
        (paired_writes (m_uv_data d)
           (sorted_by_vertex (transfer_get_uv_to_vertex_mapping s tm) [0..<uv_count_of s tm])
           (m_sorted_uv_ids d))),
      Inr (length (filter (\<lambda>(t, xy). uv_writable s (tm, t))
             (paired_writes (m_uv_data d)
               (sorted_by_vertex (transfer_get_uv_to_vertex_mapping s tm) [0..<uv_count_of s tm])
               (m_sorted_uv_ids d))),
           length (filter (\<lambda>(t, xy). \<not> uv_writable s (tm, t))
             (paired_writes (m_uv_data d)
               (sorted_by_vertex (transfer_get_uv_to_vertex_mapping s tm) [0..<uv_count_of s tm])
               (m_sorted_uv_ids d)))))"
  using assms by (simp add: paste_mesh_target_def Let_def apply_uv_data_run)

lemma length_filter_paired_total:
  "\<forall>src \<in> set ss. map_of ud src \<noteq> None \<Longrightarrow>
     length (filter (\<lambda>(t, xy). P t) (paired_writes ud ts ss))
       = length (filter P (take (min (length ts) (length ss)) ts))"
proof (induction ts arbitrary: ss)
  case Nil
  then show ?case by simp
next
  case (Cons t ts)
  then show ?case by (cases ss) (auto simp: paired_writes_Cons)
qed

section \<open>Whole-mesh copy with a failing coordinate read\<close>

lemma example_mesh_sorted_ids:
  "m_sorted_uv_ids (get_mesh_uv_data example_mesh_scene ''A'') = [0, 1, 2, 3]"
  by code_simp

lemma example_mesh_order:
  "sorted_by_vertex (transfer_get_uv_to_vertex_mapping example_mesh_scene ''B'')
     [0..<uv_count_of example_mesh_scene ''B''] = [0, 1, 2, 3]"
  by code_simp

text \<open>
  Claim C10. In a whole-mesh copy, a UV index whose coordinate read raises is stored in
  the snapshot with the coordinates \<open>(0, 0)\<close>: it is neither left out nor does the copy
  stop. A later paste onto a target that passes the topology check sends \<open>(0, 0)\<close> to the
  target point at the same position of the target order, that point ends at \<open>(0, 0)\<close>
  when the host accepts the write, and the write is counted in \<open>apply_count\<close> like any
  other accepted write.
\<close>

theorem read_error_stored_as_origin:
  assumes rd: "i < uv_count_of s0 src" "uv_query s0 (src, i) = Raises"
      and tm: "target_mesh_of s obj = Some tm"
      and ok: "check_topology (get_mesh_uv_data s0 src) (short_name obj) (poly_counts s tm) = None"
      and k: "k < length (m_sorted_uv_ids (get_mesh_uv_data s0 src))"
             "m_sorted_uv_ids (get_mesh_uv_data s0 src) ! k = i"
  shows "map_of (m_uv_data (get_mesh_uv_data s0 src)) i = Some (0, 0) \<and>
         i \<in> set (m_sorted_uv_ids (get_mesh_uv_data s0 src)) \<and>
         (let order = sorted_by_vertex (transfer_get_uv_to_vertex_mapping s tm) [0..<uv_count_of s tm];
              n = length (m_sorted_uv_ids (get_mesh_uv_data s0 src))
          in case paste_mesh_target (get_mesh_uv_data s0 src) s obj of
               (s', r) \<Rightarrow>
                 edit_calls s' ! (length (edit_calls s) + k) = ((tm, order ! k), (0, 0)) \<and>
                 (uv_writable s (tm, order ! k) \<longrightarrow> uv_query s' (tm, order ! k) = Coords (0, 0)) \<and>
                 r = Inr (length (filter (\<lambda>t. uv_writable s (tm, t)) (take n order)),
                          length (filter (\<lambda>t. \<not> uv_writable s (tm, t)) (take n order))))"
proof -
  let ?d = "get_mesh_uv_data s0 src"
  let ?order = "sorted_by_vertex (transfer_get_uv_to_vertex_mapping s tm) [0..<uv_count_of s tm]"
  let ?n = "length (m_sorted_uv_ids ?d)"
  let ?pw = "paired_writes (m_uv_data ?d) ?order (m_sorted_uv_ids ?d)"
  let ?W = "map (\<lambda>(t, xy). ((tm, t), xy)) ?pw"
  have stored: "map_of (m_uv_data ?d) i = Some (0, 0)"
    using rd by (simp add: mesh_snapshot_fields map_of_read_mesh_uv)
  have mem: "i \<in> set (m_sorted_uv_ids ?d)"
    using k by (metis nth_mem)
  have all: "\<forall>src \<in> set (m_sorted_uv_ids ?d). map_of (m_uv_data ?d) src \<noteq> None"
    by (simp add: mesh_sorted_ids_have_data)
  have cnt: "uv_count_of s tm = m_uv_count ?d"
    using ok by (simp add: check_topology_None uv_count_of_def)
  have len: "length ?order = uv_count_of s tm"
    by (simp add: length_sorted_by_vertex)
  have nle: "?n \<le> length ?order"
    using length_mesh_sorted_ids [of s0 src] cnt len by simp
  have minn: "min (length ?order) ?n = ?n"
    using nle by simp
  have pw: "?pw = map (\<lambda>(t, src). (t, the (map_of (m_uv_data ?d) src))) (zip ?order (m_sorted_uv_ids ?d))"
    by (rule paired_writes_total [OF all])
  have kpw: "k < length ?pw" using k nle by (simp add: pw)
  have pwk: "?pw ! k = (?order ! k, (0, 0))"
    using k nle stored by (simp add: pw)
  have Wk: "?W ! k = ((tm, ?order ! k), (0, 0))"
    using kpw pwk by simp
  have dist: "distinct (map fst ?W)"
  proof -
    have "map fst ?W = map (Pair tm) (map fst ?pw)"
      by (simp add: o_def case_prod_beta)
    also have "map fst ?pw = take ?n ?order"
      using map_fst_paired_writes_total [OF all, of ?order] minn by simp
    finally have "map fst ?W = map (Pair tm) (take ?n ?order)" .
    moreover have "distinct (take ?n ?order)"
      by (simp add: distinct_sorted_by_vertex)
    ultimately show ?thesis
      by (simp add: distinct_map inj_on_def)
  qed
  have Wmem: "((tm, ?order ! k), (0, 0)) \<in> set ?W"
    using kpw Wk by (metis length_map nth_mem)
  have res: "paste_mesh_target ?d s obj =
      (run_writes s ?W,
       Inr (length (filter (\<lambda>(t, xy). uv_writable s (tm, t)) ?pw),
            length (filter (\<lambda>(t, xy). \<not> uv_writable s (tm, t)) ?pw)))"
    by (rule paste_mesh_target_pass [OF tm ok])
  have calls: "edit_calls (run_writes s ?W) ! (length (edit_calls s) + k) = ((tm, ?order ! k), (0, 0))"
    using Wk by (simp add: run_writes_static nth_append)
  have final: "uv_writable s (tm, ?order ! k) \<Longrightarrow>
                 uv_query (run_writes s ?W) (tm, ?order ! k) = Coords (0, 0)"
    by (rule uv_query_run_writes_hit [OF dist Wmem])
  have c1: "length (filter (\<lambda>(t, xy). uv_writable s (tm, t)) ?pw)
              = length (filter (\<lambda>t. uv_writable s (tm, t)) (take ?n ?order))"
    using length_filter_paired_total [OF all, of "\<lambda>t. uv_writable s (tm, t)" ?order] minn by simp
  have c2: "length (filter (\<lambda>(t, xy). \<not> uv_writable s (tm, t)) ?pw)
              = length (filter (\<lambda>t. \<not> uv_writable s (tm, t)) (take ?n ?order))"
    using length_filter_paired_total [OF all, of "\<lambda>t. \<not> uv_writable s (tm, t)" ?order] minn by simp
  show ?thesis
    using stored mem calls final c1 c2 by (simp add: res Let_def)
qed

theorem read_error_stored_as_origin_witness:
  "2 < uv_count_of example_mesh_scene ''A'' \<and>
   uv_query example_mesh_scene (''A'', 2) = Raises \<and>
   target_mesh_of example_mesh_scene ''B'' = Some ''B'' \<and>
   check_topology (get_mesh_uv_data example_mesh_scene ''A'') (short_name ''B'')
     (poly_counts example_mesh_scene ''B'') = None \<and>
   m_sorted_uv_ids (get_mesh_uv_data example_mesh_scene ''A'') ! 2 = 2 \<and>
   map_of (m_uv_data (get_mesh_uv_data example_mesh_scene ''A'')) 2 = Some (0, 0) \<and>
   (case paste_mesh_target (get_mesh_uv_data example_mesh_scene ''A'') example_mesh_scene ''B'' of
      (s', r) \<Rightarrow> edit_calls s' ! 2 = ((''B'', 2), (0, 0)) \<and>
                 uv_query s' (''B'', 2) = Coords (0, 0) \<and>
                 r = Inr (3, 1))"
proof -
  have h1: "2 < uv_count_of example_mesh_scene ''A''"
    by (simp add: uv_count_of_def example_mesh_scene_def)
  have h2: "uv_query example_mesh_scene (''A'', 2) = Raises"
    by (simp add: example_mesh_scene_def)
  have h3: "target_mesh_of example_mesh_scene ''B'' = Some ''B''"
    by (simp add: target_mesh_of_def example_mesh_scene_def)
  have h4: "check_topology (get_mesh_uv_data example_mesh_scene ''A'') (short_name ''B'')
     (poly_counts example_mesh_scene ''B'') = None"
    by (simp add: check_topology_None mesh_snapshot_fields uv_count_of_def example_mesh_scene_def)
  have h5: "2 < length (m_sorted_uv_ids (get_mesh_uv_data example_mesh_scene ''A''))"
    by (simp add: example_mesh_sorted_ids)
  have h6: "m_sorted_uv_ids (get_mesh_uv_data example_mesh_scene ''A'') ! 2 = 2"
    by (simp add: example_mesh_sorted_ids)
  have w: "uv_writable example_mesh_scene = (\<lambda>c. c \<noteq> (''B'', 1))"
    "edit_calls example_mesh_scene = []"
    by (simp_all add: example_mesh_scene_def)
  show ?thesis
    using read_error_stored_as_origin [OF h1 h2 h3 h4 h5 h6] h1 h2 h3 h4 h6
    by (simp add: example_mesh_order example_mesh_sorted_ids Let_def w numeral_2_eq_2
          split: prod.splits)
qed

section \<open>Shell snapshots and the centroid-relative paste\<close>

lemma center_of_mean:
  "ps \<noteq> [] \<Longrightarrow> center_of ar ps = Inr (mean_coord ar (map snd ps))"
  by (simp add: center_of_def mean_coord_def Let_def o_def case_prod_unfold)

lemma center_of_Nil: "center_of ar [] = Inl ZeroDivisionError"
  by (simp add: center_of_def)

lemma stored_coords_Cons:
  "stored_coords s (c # cs) ud =
     stored_coords s cs (case usable_coords (uv_query s c) of
                           Some xy \<Rightarrow> AList.update (snd c) xy ud | None \<Rightarrow> ud)"
  by (simp add: stored_coords_def)

lemma stored_coords_Nil [simp]: "stored_coords s [] ud = ud"
  by (simp add: stored_coords_def)

lemma read_shell_uvs_result:
  "read_shell_uvs s cs (ids, ud) = Inr (ids', ud') \<Longrightarrow>
     ids' = ids @ map snd cs \<and> ud' = stored_coords s cs ud"
proof (induction cs arbitrary: ids ud)
  case Nil
  then show ?case by simp
next
  case (Cons c cs)
  show ?case
  proof (cases "uv_query s c")
    case (Coords xy)
    with Cons.prems have "read_shell_uvs s cs (ids @ [snd c], AList.update (snd c) xy ud) = Inr (ids', ud')"
      by simp
    from Cons.IH [OF this] show ?thesis
      by (simp add: stored_coords_Cons usable_coords_def Coords)
  next
    case Nothing
    with Cons.prems have "read_shell_uvs s cs (ids @ [snd c], ud) = Inr (ids', ud')"
      by simp
    from Cons.IH [OF this] show ?thesis
      by (simp add: stored_coords_Cons usable_coords_def Nothing)
  next
    case Short
    with Cons.prems have "read_shell_uvs s cs (ids @ [snd c], ud) = Inr (ids', ud')"
      by simp
    from Cons.IH [OF this] show ?thesis
      by (simp add: stored_coords_Cons usable_coords_def Short)
  next
    case (Long xy)
    with Cons.prems have "read_shell_uvs s cs (ids @ [snd c], AList.update (snd c) xy ud) = Inr (ids', ud')"
      by simp
    from Cons.IH [OF this] show ?thesis
      by (simp add: stored_coords_Cons usable_coords_def Long)
  next
    case Raises
    with Cons.prems show ?thesis by simp
  qed
qed

lemma read_shell_uvs_closed:
  "\<forall>c \<in> set cs. uv_query s c \<noteq> Raises \<Longrightarrow>
     read_shell_uvs s cs (ids, ud) = Inr (ids @ map snd cs, stored_coords s cs ud)"
proof (induction cs arbitrary: ids ud)
  case Nil
  then show ?case by simp
next
  case (Cons c cs)
  then show ?case
    by (cases "uv_query s c") (auto simp: stored_coords_Cons usable_coords_def)
qed

lemma read_shell_uvs_raises:
  "\<exists>c \<in> set cs. uv_query s c = Raises \<Longrightarrow> read_shell_uvs s cs (ids, ud) = Inl HostError"
proof (induction cs arbitrary: ids ud)
  case Nil
  then show ?case by simp
next
  case (Cons c cs)
  show ?case
  proof (cases "uv_query s c = Raises")
    case True
    then show ?thesis by simp
  next
    case False
    with Cons.prems have "\<exists>c \<in> set cs. uv_query s c = Raises" by auto
    from Cons.IH [OF this] show ?thesis
      by (cases "uv_query s c") simp_all
  qed
qed

lemma stored_coords_readable:
  "\<forall>c \<in> set cs. is_Coords (uv_query s c) \<Longrightarrow>
     stored_coords s cs ud = fold (\<lambda>c. AList.update (snd c) (coords_of (uv_query s c))) cs ud"
proof (induction cs arbitrary: ud)
  case Nil
  then show ?case by simp
next
  case (Cons c cs)
  then show ?case
    by (cases "uv_query s c") (auto simp: stored_coords_Cons usable_coords_def)
qed

lemma fold_update_fresh:
  "distinct (map snd cs) \<Longrightarrow> snd ` set cs \<inter> fst ` set ud = {} \<Longrightarrow>
     fold (\<lambda>c. AList.update (snd c) (f c)) cs ud = ud @ map (\<lambda>c. (snd c, f c)) cs"
proof (induction cs arbitrary: ud)
  case Nil
  then show ?case by simp
next
  case (Cons c cs)
  have fresh: "snd c \<notin> fst ` set ud" using Cons.prems by auto
  have upd: "AList.update (snd c) (f c) ud = ud @ [(snd c, f c)]"
    using fresh by (induction ud) auto
  have "snd ` set cs \<inter> fst ` set (ud @ [(snd c, f c)]) = {}"
    using Cons.prems by auto
  with Cons show ?case by (simp add: upd)
qed

lemma fold_update_keys:
  "fst ` set (fold (\<lambda>c. AList.update (snd c) (f c)) cs ud) = fst ` set ud \<union> snd ` set cs"
  by (induction cs arbitrary: ud) (auto simp: dom_update)

lemma fold_update_nonempty:
  "cs \<noteq> [] \<Longrightarrow> fold (\<lambda>c. AList.update (snd c) (f c)) cs ud \<noteq> []"
proof -
  assume "cs \<noteq> []"
  then have "fst ` set (fold (\<lambda>c. AList.update (snd c) (f c)) cs ud) \<noteq> {}"
    by (simp add: fold_update_keys)
  then show ?thesis by auto
qed

lemma stored_coords_keys:
  "fst ` set (stored_coords s cs ud) =
     fst ` set ud \<union> snd ` {c \<in> set cs. usable_coords (uv_query s c) \<noteq> None}"
proof (induction cs arbitrary: ud)
  case Nil
  then show ?case by simp
next
  case (Cons c cs)
  show ?case
  proof (cases "usable_coords (uv_query s c)")
    case None
    then show ?thesis by (auto simp: stored_coords_Cons Cons.IH)
  next
    case (Some xy)
    then show ?thesis by (auto simp: stored_coords_Cons Cons.IH dom_update)
  qed
qed

lemma stored_coords_nonempty:
  assumes "\<exists>c \<in> set cs. usable_coords (uv_query s c) \<noteq> None"
  shows "stored_coords s cs ud \<noteq> []"
proof -
  from assms have "fst ` set (stored_coords s cs ud) \<noteq> {}"
    unfolding stored_coords_keys by blast
  then show ?thesis by auto
qed

lemma stored_coords_unread:
  assumes "\<forall>c \<in> set cs. usable_coords (uv_query s c) = None"
  shows "stored_coords s cs ud = ud"
  using assms by (induction cs arbitrary: ud) (simp_all add: stored_coords_Cons)

lemma get_uv_shell_data_closed:
  assumes ne: "border_shell s u \<noteq> []"
      and nr: "\<forall>c \<in> set (border_shell s u). uv_query s c \<noteq> Raises"
  shows "\<exists>d. get_uv_shell_data s u = Inr (Some d) \<and>
           sh_object d = fst u \<and>
           sh_uv_count d = length (border_shell s u) \<and>
           sh_uv_ids d = map snd (border_shell s u) \<and>
           sh_uv_data d = stored_coords s (border_shell s u) [] \<and>
           sh_sorted_ids d = sorted_by_vertex (shell_get_uv_to_vertex_mapping s (border_shell s u))
                               (map snd (border_shell s u)) \<and>
           sh_relative_coords d = None"
proof -
  obtain c cs where cs: "border_shell s u = c # cs" using ne by (cases "border_shell s u") auto
  show ?thesis
    using read_shell_uvs_closed [OF nr, of "[]" "[]"]
    by (simp add: get_uv_shell_data_def cs Let_def)
qed

lemma get_uv_shell_data_raises:
  assumes "\<exists>c \<in> set (border_shell s u). uv_query s c = Raises"
  shows "get_uv_shell_data s u = Inl HostError"
proof -
  obtain c cs where cs: "border_shell s u = c # cs"
    using assms by (cases "border_shell s u") auto
  show ?thesis
    using read_shell_uvs_raises [OF assms, of "[]" "[]"]
    by (simp add: get_uv_shell_data_def cs)
qed

lemma get_uv_shell_data_readable:
  assumes ne: "border_shell s u \<noteq> []"
      and rd: "\<forall>c \<in> set (border_shell s u). is_Coords (uv_query s c)"
  shows "\<exists>d. get_uv_shell_data s u = Inr (Some d) \<and>
           sh_object d = fst u \<and>
           sh_uv_count d = length (border_shell s u) \<and>
           sh_uv_ids d = map snd (border_shell s u) \<and>
           sh_uv_data d = fold (\<lambda>c. AList.update (snd c) (coords_of (uv_query s c))) (border_shell s u) [] \<and>
           sh_sorted_ids d = sorted_by_vertex (shell_get_uv_to_vertex_mapping s (border_shell s u))
                               (map snd (border_shell s u))"
proof -
  have nr: "\<forall>c \<in> set (border_shell s u). uv_query s c \<noteq> Raises"
    using rd by auto
  from get_uv_shell_data_closed [OF ne nr] show ?thesis
    unfolding stored_coords_readable [OF rd] by blast
qed

lemma get_uv_shell_data_Some:
  assumes "get_uv_shell_data s u = Inr (Some d)"
  shows "border_shell s u \<noteq> [] \<and>
         sh_uv_data d = stored_coords s (border_shell s u) [] \<and>
         sh_object d = fst u \<and>
         sh_uv_count d = length (border_shell s u) \<and>
         sh_uv_ids d = map snd (border_shell s u) \<and>
         sh_sorted_ids d = sorted_by_vertex (shell_get_uv_to_vertex_mapping s (border_shell s u))
                               (sh_uv_ids d) \<and>
         sh_relative_coords d = None"
proof -
  obtain c cs where cs: "border_shell s u = c # cs"
    using assms by (cases "border_shell s u") (auto simp: get_uv_shell_data_def)
  obtain ids ud where r: "read_shell_uvs s (c # cs) ([], []) = Inr (ids, ud)"
    using assms by (auto simp: get_uv_shell_data_def cs split: sum.splits)
  from read_shell_uvs_result [OF r] have ids: "ids = map snd (c # cs)"
    and ud: "ud = stored_coords s (c # cs) []" by simp_all
  from assms r show ?thesis
    by (auto simp: get_uv_shell_data_def cs Let_def ids ud)
qed

lemma copy_uv_shell_success:
  assumes "copy_uv_shell ar s0 sel old = (Inr (Inr ()), Some src)"
  shows "\<exists>u rest d0 ctr. get_selected_uv_shells s0 sel = Some (u # rest) \<and>
           get_uv_shell_data s0 u = Inr (Some d0) \<and>
           center_of ar (sh_uv_data d0) = Inr ctr \<and>
           sh_center src = Some ctr \<and>
           sh_relative_coords src =
             Some (map (\<lambda>(uv_id, coords).
                          (uv_id, (f_sub ar (fst coords) (fst ctr), f_sub ar (snd coords) (snd ctr))))
                       (sh_uv_data d0)) \<and>
           sh_uv_data src = sh_uv_data d0 \<and> sh_sorted_ids src = sh_sorted_ids d0 \<and>
           sh_uv_ids src = sh_uv_ids d0 \<and> sh_uv_count src = sh_uv_count d0 \<and>
           sh_object src = sh_object d0"
  using assms
  by (auto simp: copy_uv_shell_def split: option.splits list.splits sum.splits prod.splits; blast)

lemma copy_uv_shell_ok:
  assumes sel: "get_selected_uv_shells s0 sel = Some (u # rest)"
      and ne: "border_shell s0 u \<noteq> []"
      and nr: "\<forall>c \<in> set (border_shell s0 u). uv_query s0 c \<noteq> Raises"
      and rd: "\<exists>c \<in> set (border_shell s0 u). usable_coords (uv_query s0 c) \<noteq> None"
  shows "copy_uv_shell ar s0 sel old
           = (Inr (Inr ()), Some (the (snd (copy_uv_shell ar s0 sel old))))"
proof -
  from get_uv_shell_data_closed [OF ne nr] obtain d where
    d: "get_uv_shell_data s0 u = Inr (Some d)" and
    ud: "sh_uv_data d = stored_coords s0 (border_shell s0 u) []"
    by blast
  have "sh_uv_data d \<noteq> []"
    unfolding ud by (rule stored_coords_nonempty [OF rd])
  then have "center_of ar (sh_uv_data d) = Inr (mean_coord ar (map snd (sh_uv_data d)))"
    by (rule center_of_mean)
  then show ?thesis
    by (simp add: copy_uv_shell_def sel d split: prod.splits)
qed

text \<open>
  What a successful copy leaves on the clipboard, in terms of the scene at copy time.
\<close>

lemma snapshot_of_copy:
  assumes copy: "copy_uv_shell ar s0 sel old = (Inr (Inr ()), Some src)"
  shows "\<exists>u rest.
           get_selected_uv_shells s0 sel = Some (u # rest) \<and>
           border_shell s0 u \<noteq> [] \<and>
           sh_object src = fst u \<and>
           sh_uv_count src = length (border_shell s0 u) \<and>
           sh_uv_data src = stored_coords s0 (border_shell s0 u) [] \<and>
           sh_uv_data src \<noteq> [] \<and>
           sh_sorted_ids src = sorted_by_vertex (shell_get_uv_to_vertex_mapping s0 (border_shell s0 u))
                                 (map snd (border_shell s0 u)) \<and>
           length (sh_sorted_ids src) = sh_uv_count src \<and>
           sh_center src = Some (mean_coord ar (map snd (sh_uv_data src))) \<and>
           sh_relative_coords src =
             Some (map (\<lambda>(uv_id, coords).
                          (uv_id, (f_sub ar (fst coords) (fst (mean_coord ar (map snd (sh_uv_data src)))),
                                   f_sub ar (snd coords) (snd (mean_coord ar (map snd (sh_uv_data src)))))))
                       (sh_uv_data src))"
proof -
  from copy_uv_shell_success [OF copy] obtain u rest d0 ctr where
    sel: "get_selected_uv_shells s0 sel = Some (u # rest)" and
    d0: "get_uv_shell_data s0 u = Inr (Some d0)" and
    ctr: "center_of ar (sh_uv_data d0) = Inr ctr" "sh_center src = Some ctr" and
    rel: "sh_relative_coords src =
             Some (map (\<lambda>(uv_id, coords).
                          (uv_id, (f_sub ar (fst coords) (fst ctr), f_sub ar (snd coords) (snd ctr))))
                       (sh_uv_data d0))" and
    eq: "sh_uv_data src = sh_uv_data d0" "sh_sorted_ids src = sh_sorted_ids d0"
        "sh_uv_ids src = sh_uv_ids d0" "sh_uv_count src = sh_uv_count d0"
        "sh_object src = sh_object d0"
    by blast
  from get_uv_shell_data_Some [OF d0] have
    f1: "border_shell s0 u \<noteq> []" and
    f2: "sh_uv_data d0 = stored_coords s0 (border_shell s0 u) []" and
    f3: "sh_uv_count d0 = length (border_shell s0 u)" and
    f4: "sh_uv_ids d0 = map snd (border_shell s0 u)" and
    f5: "sh_sorted_ids d0 = sorted_by_vertex (shell_get_uv_to_vertex_mapping s0 (border_shell s0 u))
                               (sh_uv_ids d0)" and
    f6: "sh_object d0 = fst u"
    by blast+
  have ne: "sh_uv_data d0 \<noteq> []"
    using ctr(1) by (auto simp: center_of_def)
  have c: "ctr = mean_coord ar (map snd (sh_uv_data d0))"
    using ctr(1) unfolding center_of_mean [OF ne] by simp
  have len: "length (sh_sorted_ids d0) = sh_uv_count d0"
    unfolding f5 f3 f4 by (simp add: length_sorted_by_vertex)
  have r2: "sh_relative_coords src =
      Some (map (\<lambda>(uv_id, coords).
                   (uv_id, (f_sub ar (fst coords) (fst (mean_coord ar (map snd (sh_uv_data src)))),
                            f_sub ar (snd coords) (snd (mean_coord ar (map snd (sh_uv_data src)))))))
                (sh_uv_data src))"
    unfolding rel eq c ..
  have c2: "sh_center src = Some (mean_coord ar (map snd (sh_uv_data src)))"
    unfolding ctr(2) eq c ..
  have 1: "sh_object src = fst u" unfolding eq f6 ..
  have 2: "sh_uv_count src = length (border_shell s0 u)" unfolding eq f3 ..
  have 3: "sh_uv_data src = stored_coords s0 (border_shell s0 u) []" unfolding eq f2 ..
  have 4: "sh_uv_data src \<noteq> []" unfolding eq by (rule ne)
  have 5: "sh_sorted_ids src = sorted_by_vertex (shell_get_uv_to_vertex_mapping s0 (border_shell s0 u))
                                 (map snd (border_shell s0 u))"
    unfolding eq f5 f4 ..
  have 6: "length (sh_sorted_ids src) = sh_uv_count src" unfolding eq by (rule len)
  show ?thesis
    by (intro exI conjI) (rule sel, rule f1, rule 1, rule 2, rule 3, rule 4, rule 5, rule 6,
        rule c2, rule r2)
qed

lemma paste_shell_target_pass:
  assumes rel: "sh_relative_coords src = Some rel"
      and td: "get_uv_shell_data s t = Inr (Some td)"
      and ud: "sh_uv_data td \<noteq> []"
      and compat: "check_uv_count mt src idx td = None"
  shows "paste_shell_target ar src mt s idx t =
     Inr (run_writes s
            (map (\<lambda>(t', r). ((sh_object td, t'),
                     (f_add ar (fst (mean_coord ar (map snd (sh_uv_data td)))) (fst r),
                      f_add ar (snd (mean_coord ar (map snd (sh_uv_data td)))) (snd r))))
                 (paired_writes rel (sh_sorted_ids td) (sh_sorted_ids src))),
          Inr (length (filter (\<lambda>(t', r). uv_writable s (sh_object td, t'))
                 (paired_writes rel (sh_sorted_ids td) (sh_sorted_ids src)))))"
  by (simp add: paste_shell_target_def td compat center_of_mean [OF ud] rel apply_relative_coords_run)

lemma map_of_offsets:
  "map_of (map (\<lambda>(uv_id, coords). (uv_id, f coords)) al) k = map_option f (map_of al k)"
  by (induction al) auto

text \<open>
  The writes of a loop over offsets, in terms of the coordinates the offsets were
  computed from.
\<close>

lemma offset_writes:
  "map (\<lambda>(t, r). ((obj, t), g r))
       (paired_writes (map (\<lambda>(uv_id, coords). (uv_id, f coords)) ud) ts ss)
     = List.map_filter (\<lambda>(tid, sid). map_option (\<lambda>xy. ((obj, tid), g (f xy))) (map_of ud sid))
         (zip ts ss)"
proof (induction ts arbitrary: ss)
  case Nil
  then show ?case by (simp add: List.map_filter_simps)
next
  case (Cons t ts)
  show ?case
  proof (cases ss)
    case Nil
    then show ?thesis by (simp add: List.map_filter_simps)
  next
    case (Cons src ss')
    show ?thesis
      unfolding Cons
      by (cases "map_of ud src")
         (simp_all add: paired_writes_Cons map_of_offsets List.map_filter_simps Cons.IH)
  qed
qed

lemma set_map_filter_iff:
  "y \<in> set (List.map_filter g xs) \<longleftrightarrow> (\<exists>x \<in> set xs. g x = Some y)"
  by (induction xs) (auto simp: List.map_filter_simps split: option.splits)

lemma subseq_distinct: "subseq xs ys \<Longrightarrow> distinct ys \<Longrightarrow> distinct xs"
  using subseqs_distinctD [of xs ys] by simp

lemma map_filter_zip_targets:
  "subseq (map fst (List.map_filter (\<lambda>(tid, sid). map_option (\<lambda>xy. ((obj, tid), h xy)) (m sid))
                      (zip ts ss)))
          (map (Pair obj) ts)"
proof (induction ts arbitrary: ss)
  case Nil
  then show ?case by (simp add: List.map_filter_simps)
next
  case (Cons t ts)
  show ?case
  proof (cases ss)
    case Nil
    then show ?thesis by (simp add: List.map_filter_simps)
  next
    case (Cons src ss')
    show ?thesis
      unfolding Cons
      by (cases "m src") (simp_all add: List.map_filter_simps Cons.IH list_emb_Cons)
  qed
qed

lemma map_filter_zip_mem:
  assumes "(c, v) \<in> set (List.map_filter (\<lambda>(tid, sid). map_option (\<lambda>xy. ((obj, tid), h xy)) (m sid))
                           (zip ts ss))"
  shows "\<exists>j xy. j < length ts \<and> j < length ss \<and> c = (obj, ts ! j) \<and> m (ss ! j) = Some xy \<and> v = h xy"
proof -
  from assms obtain tid sid where
    z: "(tid, sid) \<in> set (zip ts ss)" and
    v: "map_option (\<lambda>xy. ((obj, tid), h xy)) (m sid) = Some (c, v)"
    unfolding set_map_filter_iff by auto
  from z obtain j where j: "j < length ts" "j < length ss" "ts ! j = tid" "ss ! j = sid"
    by (auto simp: in_set_zip)
  from v obtain xy where "m sid = Some xy" "c = (obj, tid)" "v = h xy"
    by (cases "m sid") auto
  with j show ?thesis by blast
qed

lemma map_filter_zip_hit:
  assumes "j < length ts" "j < length ss" "m (ss ! j) = Some xy"
  shows "((obj, ts ! j), h xy)
           \<in> set (List.map_filter (\<lambda>(tid, sid). map_option (\<lambda>xy. ((obj, tid), h xy)) (m sid))
                    (zip ts ss))"
proof -
  have "(ts ! j, ss ! j) \<in> set (zip ts ss)"
    using assms(1,2) by (auto simp: in_set_zip)
  then show ?thesis
    unfolding set_map_filter_iff using assms(3) by force
qed

text \<open>
  One target of a paste, for a clipboard left by a successful copy: the target's data
  is read, its centre computed, and the writes sent are those of the positional pairs
  whose source point has coordinates on record.
\<close>

lemma paste_target_writes:
  assumes copy: "copy_uv_shell ar s0 sel old = (Inr (Inr ()), Some src)"
      and ne: "border_shell s t \<noteq> []"
      and nr: "\<forall>c \<in> set (border_shell s t). uv_query s c \<noteq> Raises"
      and rd: "\<exists>c \<in> set (border_shell s t). usable_coords (uv_query s c) \<noteq> None"
      and compat: "mt \<longrightarrow> length (border_shell s t) = sh_uv_count src"
  shows "\<exists>td n.
           get_uv_shell_data s t = Inr (Some td) \<and>
           sh_object td = fst t \<and>
           sh_uv_data td = stored_coords s (border_shell s t) [] \<and>
           sh_sorted_ids td = sorted_by_vertex (shell_get_uv_to_vertex_mapping s (border_shell s t))
                                (map snd (border_shell s t)) \<and>
           paste_shell_target ar src mt s idx t =
             Inr (run_writes s
                    (List.map_filter
                       (\<lambda>(tid, sid).
                          map_option (\<lambda>xy. ((fst t, tid),
                                             moved_coord ar (mean_coord ar (map snd (sh_uv_data td)))
                                               (mean_coord ar (map snd (sh_uv_data src))) xy))
                                     (map_of (sh_uv_data src) sid))
                       (zip (sh_sorted_ids td) (sh_sorted_ids src))),
                  Inr n)"
proof -
  let ?sc = "mean_coord ar (map snd (sh_uv_data src))"
  let ?f = "\<lambda>coords. (f_sub ar (fst coords) (fst ?sc), f_sub ar (snd coords) (snd ?sc))"
  let ?rel = "map (\<lambda>(uv_id, coords). (uv_id, ?f coords)) (sh_uv_data src)"
  from snapshot_of_copy [OF copy] have rel: "sh_relative_coords src = Some ?rel"
    by blast
  from get_uv_shell_data_closed [OF ne nr] obtain td where
    td: "get_uv_shell_data s t = Inr (Some td)" and
    obj: "sh_object td = fst t" and
    cnt: "sh_uv_count td = length (border_shell s t)" and
    tud: "sh_uv_data td = stored_coords s (border_shell s t) []" and
    tso: "sh_sorted_ids td = sorted_by_vertex (shell_get_uv_to_vertex_mapping s (border_shell s t))
                               (map snd (border_shell s t))"
    by blast
  have tne: "sh_uv_data td \<noteq> []"
    unfolding tud by (rule stored_coords_nonempty [OF rd])
  have chk: "check_uv_count mt src idx td = None"
    using compat cnt by (simp add: check_uv_count_def)
  let ?tc = "mean_coord ar (map snd (sh_uv_data td))"
  let ?g = "\<lambda>r. (f_add ar (fst ?tc) (fst r), f_add ar (snd ?tc) (snd r))"
  let ?pw = "paired_writes ?rel (sh_sorted_ids td) (sh_sorted_ids src)"
  have W: "map (\<lambda>(t', r). ((fst t, t'), ?g r)) ?pw =
      List.map_filter
        (\<lambda>(tid, sid). map_option (\<lambda>xy. ((fst t, tid), ?g (?f xy))) (map_of (sh_uv_data src) sid))
        (zip (sh_sorted_ids td) (sh_sorted_ids src))"
    by (rule offset_writes)
  have mv: "(\<lambda>xy. ((fst t, tid), ?g (?f xy))) = (\<lambda>xy. ((fst t, tid), moved_coord ar ?tc ?sc xy))" for tid
    by (simp add: moved_coord_def)
  have res: "paste_shell_target ar src mt s idx t =
      Inr (run_writes s (map (\<lambda>(t', r). ((fst t, t'), ?g r)) ?pw),
           Inr (length (filter (\<lambda>(t', r). uv_writable s (fst t, t')) ?pw)))"
    using paste_shell_target_pass [OF rel td tne chk, where ar = ar] unfolding obj .
  show ?thesis
    using td obj tud tso res unfolding W mv by blast
qed

lemma paste_target_raises:
  assumes "\<exists>c \<in> set (border_shell s t). uv_query s c = Raises"
  shows "paste_shell_target ar src mt s idx t = Inl HostError"
  by (simp add: paste_shell_target_def get_uv_shell_data_raises [OF assms])

lemma paste_target_unread:
  assumes ne: "border_shell s t \<noteq> []"
      and un: "\<forall>c \<in> set (border_shell s t). uv_query s c \<noteq> Raises \<and> usable_coords (uv_query s c) = None"
      and compat: "mt \<longrightarrow> length (border_shell s t) = sh_uv_count src"
  shows "paste_shell_target ar src mt s idx t = Inl ZeroDivisionError"
proof -
  have nr: "\<forall>c \<in> set (border_shell s t). uv_query s c \<noteq> Raises" using un by blast
  have ur: "\<forall>c \<in> set (border_shell s t). usable_coords (uv_query s c) = None" using un by blast
  from get_uv_shell_data_closed [OF ne nr] obtain td where
    td: "get_uv_shell_data s t = Inr (Some td)" and
    cnt: "sh_uv_count td = length (border_shell s t)" and
    tud: "sh_uv_data td = stored_coords s (border_shell s t) []"
    by blast
  have e: "sh_uv_data td = []"
    unfolding tud by (rule stored_coords_unread [OF ur])
  have chk: "check_uv_count mt src idx td = None"
    using compat cnt by (simp add: check_uv_count_def)
  show ?thesis
    by (simp add: paste_shell_target_def td chk e center_of_Nil)
qed

lemma example_shell_fields:
  "border_shell example_shell_scene =
     (\<lambda>c. if fst c = ''P'' then [(''P'', 0), (''P'', 1)]
          else if fst c = ''Q'' then [(''Q'', 0), (''Q'', 1)]
          else if fst c = ''R'' then [(''R'', 0), (''R'', 1), (''R'', 2)]
          else if fst c = ''T'' then [(''T'', 0), (''T'', 1)]
          else [])"
  "uv_query example_shell_scene =
     (\<lambda>c. Coords (if fst c = ''P'' then (2 * real (snd c), 0) else (10 + real (snd c), 5)))"
  "uv_vertex example_shell_scene = (\<lambda>c. Some (snd c))"
  "uv_writable example_shell_scene = (\<lambda>c. True)"
  "edit_calls example_shell_scene = []"
  by (simp_all add: example_shell_scene_def)

lemma example_faulty_fields:
  "border_shell example_faulty_scene =
     (\<lambda>c. if fst c \<in> {''G'', ''P'', ''Q'', ''R'', ''T'', ''U''}
          then [(fst c, 0), (fst c, 1)] else [])"
  "uv_query example_faulty_scene =
     (\<lambda>c. if c = (''G'', 1) \<or> fst c = ''U'' then Nothing
          else if c = (''R'', 1) then Raises
          else Coords (2 * real (snd c), 0))"
  "uv_vertex example_faulty_scene = (\<lambda>c. Some (snd c))"
  "uv_writable example_faulty_scene = (\<lambda>c. True)"
  "edit_calls example_faulty_scene = []"
  by (simp_all add: example_faulty_scene_def)

lemma example_selected_one:
  "get_selected_uv_shells example_shell_scene [UV (''P'', 0)] = Some [(''P'', 0)]"
  "get_selected_uv_shells example_faulty_scene [UV (''G'', 0)] = Some [(''G'', 0)]"
  "get_selected_uv_shells example_faulty_scene [UV (''P'', 0)] = Some [(''P'', 0)]"
  by (simp_all add: get_selected_uv_shells_def filterExpand_uv_def List.map_filter_simps
        example_shell_fields example_faulty_fields)

lemma example_order:
  "sorted_by_vertex (shell_get_uv_to_vertex_mapping s [(n, 0), (n, 1)]) [0, 1] = [0, 1]"
  if "uv_vertex s = (\<lambda>c. Some (snd c))"
  by (simp add: sorted_by_vertex_def shell_get_uv_to_vertex_mapping_def anchor_key_def that)

lemma example_copy:
  "copy_uv_shell double_arith example_shell_scene [UV (''P'', 0)] None
     = (Inr (Inr ()), Some example_shell_clipboard)"
proof -
  have b: "border_shell example_shell_scene (''P'', 0) = [(''P'', 0), (''P'', 1)]"
    by (simp add: example_shell_fields)
  have ne: "border_shell example_shell_scene (''P'', 0) \<noteq> []" unfolding b by simp
  have nr: "\<forall>c \<in> set (border_shell example_shell_scene (''P'', 0)). uv_query example_shell_scene c \<noteq> Raises"
    unfolding b by (simp add: example_shell_fields)
  have "usable_coords (uv_query example_shell_scene (''P'', 0)) \<noteq> None"
    by (simp add: example_shell_fields usable_coords_def)
  then have rd: "\<exists>c \<in> set (border_shell example_shell_scene (''P'', 0)).
                   usable_coords (uv_query example_shell_scene c) \<noteq> None"
    unfolding b by simp
  show ?thesis
    unfolding example_shell_clipboard_def
    by (rule copy_uv_shell_ok [OF example_selected_one(1) ne nr rd])
qed

lemma example_gap_copy:
  "copy_uv_shell double_arith example_faulty_scene [UV (''G'', 0)] None
     = (Inr (Inr ()), Some example_gap_clipboard)"
proof -
  have b: "border_shell example_faulty_scene (''G'', 0) = [(''G'', 0), (''G'', 1)]"
    by (simp add: example_faulty_fields)
  have ne: "border_shell example_faulty_scene (''G'', 0) \<noteq> []" unfolding b by simp
  have nr: "\<forall>c \<in> set (border_shell example_faulty_scene (''G'', 0)). uv_query example_faulty_scene c \<noteq> Raises"
    unfolding b by (simp add: example_faulty_fields)
  have "usable_coords (uv_query example_faulty_scene (''G'', 0)) \<noteq> None"
    by (simp add: example_faulty_fields usable_coords_def)
  then have rd: "\<exists>c \<in> set (border_shell example_faulty_scene (''G'', 0)).
                   usable_coords (uv_query example_faulty_scene c) \<noteq> None"
    unfolding b by simp
  show ?thesis
    unfolding example_gap_clipboard_def
    by (rule copy_uv_shell_ok [OF example_selected_one(2) ne nr rd])
qed

lemma example_faulty_copy:
  "copy_uv_shell double_arith example_faulty_scene [UV (''P'', 0)] None
     = (Inr (Inr ()), Some example_faulty_clipboard)"
proof -
  have b: "border_shell example_faulty_scene (''P'', 0) = [(''P'', 0), (''P'', 1)]"
    by (simp add: example_faulty_fields)
  have ne: "border_shell example_faulty_scene (''P'', 0) \<noteq> []" unfolding b by simp
  have nr: "\<forall>c \<in> set (border_shell example_faulty_scene (''P'', 0)). uv_query example_faulty_scene c \<noteq> Raises"
    unfolding b by (simp add: example_faulty_fields)
  have "usable_coords (uv_query example_faulty_scene (''P'', 0)) \<noteq> None"
    by (simp add: example_faulty_fields usable_coords_def)
  then have rd: "\<exists>c \<in> set (border_shell example_faulty_scene (''P'', 0)).
                   usable_coords (uv_query example_faulty_scene c) \<noteq> None"
    unfolding b by simp
  show ?thesis
    unfolding example_faulty_clipboard_def
    by (rule copy_uv_shell_ok [OF example_selected_one(3) ne nr rd])
qed

lemma example_clip_data:
  "sh_uv_count example_shell_clipboard = 2"
  "sh_uv_data example_shell_clipboard = [(0, (0, 0)), (1, (2, 0))]"
  "sh_sorted_ids example_shell_clipboard = [0, 1]"
proof -
  from snapshot_of_copy [OF example_copy] obtain u rest where
    "get_selected_uv_shells example_shell_scene [UV (''P'', 0)] = Some (u # rest)" and
    f: "sh_uv_count example_shell_clipboard = length (border_shell example_shell_scene u)"
       "sh_uv_data example_shell_clipboard = stored_coords example_shell_scene (border_shell example_shell_scene u) []"
       "sh_sorted_ids example_shell_clipboard =
          sorted_by_vertex (shell_get_uv_to_vertex_mapping example_shell_scene (border_shell example_shell_scene u))
            (map snd (border_shell example_shell_scene u))"
    by blast
  then have u: "u = (''P'', 0)" by (simp add: example_selected_one)
  have b: "border_shell example_shell_scene (''P'', 0) = [(''P'', 0), (''P'', 1)]"
    by (simp add: example_shell_fields)
  show "sh_uv_count example_shell_clipboard = 2"
    unfolding f u b by simp
  show "sh_uv_data example_shell_clipboard = [(0, (0, 0)), (1, (2, 0))]"
    unfolding f u b by (simp add: stored_coords_def usable_coords_def example_shell_fields)
  show "sh_sorted_ids example_shell_clipboard = [0, 1]"
    unfolding f u b using example_order [OF example_shell_fields(3), of "''P''"] by simp
qed

lemma example_gap_data:
  "sh_uv_count example_gap_clipboard = 2"
  "sh_uv_data example_gap_clipboard = [(0, (0, 0))]"
  "sh_sorted_ids example_gap_clipboard = [0, 1]"
proof -
  from snapshot_of_copy [OF example_gap_copy] obtain u rest where
    "get_selected_uv_shells example_faulty_scene [UV (''G'', 0)] = Some (u # rest)" and
    f: "sh_uv_count example_gap_clipboard = length (border_shell example_faulty_scene u)"
       "sh_uv_data example_gap_clipboard = stored_coords example_faulty_scene (border_shell example_faulty_scene u) []"
       "sh_sorted_ids example_gap_clipboard =
          sorted_by_vertex (shell_get_uv_to_vertex_mapping example_faulty_scene (border_shell example_faulty_scene u))
            (map snd (border_shell example_faulty_scene u))"
    by blast
  then have u: "u = (''G'', 0)" by (simp add: example_selected_one)
  have b: "border_shell example_faulty_scene (''G'', 0) = [(''G'', 0), (''G'', 1)]"
    by (simp add: example_faulty_fields)
  show "sh_uv_count example_gap_clipboard = 2"
    unfolding f u b by simp
  show "sh_uv_data example_gap_clipboard = [(0, (0, 0))]"
    unfolding f u b by (simp add: stored_coords_def usable_coords_def example_faulty_fields)
  show "sh_sorted_ids example_gap_clipboard = [0, 1]"
    unfolding f u b using example_order [OF example_faulty_fields(3), of "''G''"] by simp
qed

lemma example_faulty_data:
  "sh_uv_count example_faulty_clipboard = 2"
  "sh_uv_data example_faulty_clipboard = [(0, (0, 0)), (1, (2, 0))]"
  "sh_sorted_ids example_faulty_clipboard = [0, 1]"
proof -
  from snapshot_of_copy [OF example_faulty_copy] obtain u rest where
    "get_selected_uv_shells example_faulty_scene [UV (''P'', 0)] = Some (u # rest)" and
    f: "sh_uv_count example_faulty_clipboard = length (border_shell example_faulty_scene u)"
       "sh_uv_data example_faulty_clipboard = stored_coords example_faulty_scene (border_shell example_faulty_scene u) []"
       "sh_sorted_ids example_faulty_clipboard =
          sorted_by_vertex (shell_get_uv_to_vertex_mapping example_faulty_scene (border_shell example_faulty_scene u))
            (map snd (border_shell example_faulty_scene u))"
    by blast
  then have u: "u = (''P'', 0)" by (simp add: example_selected_one)
  have b: "border_shell example_faulty_scene (''P'', 0) = [(''P'', 0), (''P'', 1)]"
    by (simp add: example_faulty_fields)
  show "sh_uv_count example_faulty_clipboard = 2"
    unfolding f u b by simp
  show "sh_uv_data example_faulty_clipboard = [(0, (0, 0)), (1, (2, 0))]"
    unfolding f u b by (simp add: stored_coords_def usable_coords_def example_faulty_fields)
  show "sh_sorted_ids example_faulty_clipboard = [0, 1]"
    unfolding f u b using example_order [OF example_faulty_fields(3), of "''P''"] by simp
qed

text \<open>
  The paste of the clipboard copied from shell \<open>G\<close>, whose second point gave no
  coordinates, onto shell \<open>Q\<close>: one write, to \<open>Q.map[0]\<close>.
\<close>

lemma example_gap_paste:
  "\<exists>xy n. paste_shell_target double_arith example_gap_clipboard True example_faulty_scene 1 (''Q'', 0)
            = Inr (run_writes example_faulty_scene [((''Q'', 0), xy)], Inr n)"
proof -
  have b: "border_shell example_faulty_scene (''Q'', 0) = [(''Q'', 0), (''Q'', 1)]"
    by (simp add: example_faulty_fields)
  have ne: "border_shell example_faulty_scene (''Q'', 0) \<noteq> []" unfolding b by simp
  have nr: "\<forall>c \<in> set (border_shell example_faulty_scene (''Q'', 0)). uv_query example_faulty_scene c \<noteq> Raises"
    unfolding b by (simp add: example_faulty_fields)
  have rd: "\<exists>c \<in> set (border_shell example_faulty_scene (''Q'', 0)).
              usable_coords (uv_query example_faulty_scene c) \<noteq> None"
    unfolding b by (simp add: example_faulty_fields usable_coords_def)
  have compat: "True \<longrightarrow> length (border_shell example_faulty_scene (''Q'', 0)) = sh_uv_count example_gap_clipboard"
    unfolding b by (simp add: example_gap_data)
  from paste_target_writes [OF example_gap_copy ne nr rd compat, of 1] obtain td n where
    "get_uv_shell_data example_faulty_scene (''Q'', 0) = Inr (Some td)" and
    "sh_object td = fst (''Q'', 0 :: nat)" and
    "sh_uv_data td = stored_coords example_faulty_scene (border_shell example_faulty_scene (''Q'', 0)) []" and
    so: "sh_sorted_ids td =
           sorted_by_vertex (shell_get_uv_to_vertex_mapping example_faulty_scene
                               (border_shell example_faulty_scene (''Q'', 0)))
             (map snd (border_shell example_faulty_scene (''Q'', 0)))" and
    r: "paste_shell_target double_arith example_gap_clipboard True example_faulty_scene 1 (''Q'', 0) =
          Inr (run_writes example_faulty_scene
                 (List.map_filter
                    (\<lambda>(tid, sid).
                       map_option (\<lambda>xy. ((fst (''Q'', 0 :: nat), tid),
                                          moved_coord double_arith (mean_coord double_arith (map snd (sh_uv_data td)))
                                            (mean_coord double_arith (map snd (sh_uv_data example_gap_clipboard))) xy))
                                  (map_of (sh_uv_data example_gap_clipboard) sid))
                    (zip (sh_sorted_ids td) (sh_sorted_ids example_gap_clipboard))),
               Inr n)"
    by (elim exE conjE) (rule that)
  have so': "sh_sorted_ids td = [0, 1]"
    unfolding so b using example_order [OF example_faulty_fields(3), of "''Q''"] by simp
  have "paste_shell_target double_arith example_gap_clipboard True example_faulty_scene 1 (''Q'', 0)
          = Inr (run_writes example_faulty_scene
                   [((''Q'', 0), moved_coord double_arith (mean_coord double_arith (map snd (sh_uv_data td)))
                                   (mean_coord double_arith (map snd (sh_uv_data example_gap_clipboard)))
                                   (0, 0))],
                 Inr n)"
    using r unfolding so' example_gap_data
    by (simp add: List.map_filter_simps)
  then show ?thesis by (intro exI)
qed

text \<open>
  Claim C1, as stated, fails for a snapshot in which a source point has no coordinates on
  record. The copy of shell \<open>G\<close> succeeds although the query of \<open>G.map[1]\<close> returned
  nothing; shell \<open>Q\<close> has the same number of points and is compatible; the paste sends
  one write, to \<open>Q.map[0]\<close>, and the second point of the target order, \<open>Q.map[1]\<close>, is
  not overwritten.
\<close>

theorem paste_skips_unread_source:
  "copy_uv_shell double_arith example_faulty_scene [UV (''G'', 0)] None
     = (Inr (Inr ()), Some example_gap_clipboard) \<and>
   sh_uv_count example_gap_clipboard = length (border_shell example_faulty_scene (''Q'', 0)) \<and>
   sh_sorted_ids example_gap_clipboard = [0, 1] \<and>
   map_of (sh_uv_data example_gap_clipboard) 1 = None \<and>
   (case paste_shell_target double_arith example_gap_clipboard True example_faulty_scene 1 (''Q'', 0) of
      Inr (s', Inr n) \<Rightarrow>
        map fst (edit_calls s') = [(''Q'', 0)] \<and>
        uv_query s' (''Q'', 1) = uv_query example_faulty_scene (''Q'', 1)
    | _ \<Rightarrow> False)"
proof -
  from example_gap_paste obtain xy n where
    r: "paste_shell_target double_arith example_gap_clipboard True example_faulty_scene 1 (''Q'', 0)
            = Inr (run_writes example_faulty_scene [((''Q'', 0), xy)], Inr n)"
    by blast
  have q: "uv_query (run_writes example_faulty_scene [((''Q'', 0), xy)]) (''Q'', 1)
             = uv_query example_faulty_scene (''Q'', 1)"
    by (rule uv_query_run_writes_other) simp
  show ?thesis
    unfolding r using q
    by (simp add: example_gap_copy example_gap_data example_faulty_fields run_writes_static)
qed

text \<open>
  Claim C1, amended. For a snapshot left by a successful copy and a target shell with the
  same number of UV points, none of whose coordinate queries raises and at least one of
  which returns coordinates: the paste computes the target's centroid as the float mean
  of the target coordinates on record (those of all its points when every query returns
  coordinates), and for every position \<open>i\<close> of the canonical orders whose source point
  has coordinates on record it sends to the \<open>i\<close>-th target point the float sum of the
  target centroid and the source point's offset, the offset being the float difference
  of the source point's coordinate at copy time and the source centroid stored at copy
  time; the target point holds that value afterwards when the host accepts the write. A
  position whose source point has no coordinates on record is skipped: its target point
  is not written.
\<close>

theorem centroid_relative_paste:
  assumes copy: "copy_uv_shell ar s0 sel old = (Inr (Inr ()), Some src)"
      and ne: "border_shell s t \<noteq> []"
      and nr: "\<forall>c \<in> set (border_shell s t). uv_query s c \<noteq> Raises"
      and rd: "\<exists>c \<in> set (border_shell s t). usable_coords (uv_query s c) \<noteq> None"
      and compat: "length (border_shell s t) = sh_uv_count src"
  shows "\<exists>u rest td s' n.
       get_selected_uv_shells s0 sel = Some (u # rest) \<and>
       sh_uv_data src = stored_coords s0 (border_shell s0 u) [] \<and>
       sh_center src = Some (mean_coord ar (map snd (sh_uv_data src))) \<and>
       length (sh_sorted_ids src) = sh_uv_count src \<and>
       get_uv_shell_data s t = Inr (Some td) \<and>
       sh_uv_data td = stored_coords s (border_shell s t) [] \<and>
       (distinct (map snd (border_shell s t)) \<and>
        (\<forall>c \<in> set (border_shell s t). is_Coords (uv_query s c)) \<longrightarrow>
          map snd (sh_uv_data td) = map (\<lambda>c. coords_of (uv_query s c)) (border_shell s t)) \<and>
       length (sh_sorted_ids td) = sh_uv_count src \<and>
       paste_shell_target ar src True s idx t = Inr (s', Inr n) \<and>
       (let tc = mean_coord ar (map snd (sh_uv_data td));
            sc = mean_coord ar (map snd (sh_uv_data src));
            sent = drop (length (edit_calls s)) (edit_calls s')
        in sent = List.map_filter
                    (\<lambda>(tid, sid). map_option (\<lambda>xy. ((fst t, tid), moved_coord ar tc sc xy))
                                              (map_of (sh_uv_data src) sid))
                    (zip (sh_sorted_ids td) (sh_sorted_ids src)) \<and>
           (distinct (map snd (border_shell s t)) \<longrightarrow>
              (\<forall>i < sh_uv_count src.
                 case map_of (sh_uv_data src) (sh_sorted_ids src ! i) of
                   Some xy \<Rightarrow>
                     ((fst t, sh_sorted_ids td ! i), moved_coord ar tc sc xy) \<in> set sent \<and>
                     (uv_writable s (fst t, sh_sorted_ids td ! i) \<longrightarrow>
                        uv_query s' (fst t, sh_sorted_ids td ! i) = Coords (moved_coord ar tc sc xy))
                 | None \<Rightarrow>
                     (fst t, sh_sorted_ids td ! i) \<notin> fst ` set sent \<and>
                     uv_query s' (fst t, sh_sorted_ids td ! i)
                       = uv_query s (fst t, sh_sorted_ids td ! i))))"
proof -
  from snapshot_of_copy [OF copy] obtain u rest where
    sel: "get_selected_uv_shells s0 sel = Some (u # rest)" and
    sud: "sh_uv_data src = stored_coords s0 (border_shell s0 u) []" and
    ctr: "sh_center src = Some (mean_coord ar (map snd (sh_uv_data src)))" and
    slen: "length (sh_sorted_ids src) = sh_uv_count src"
    by blast
  have compat': "True \<longrightarrow> length (border_shell s t) = sh_uv_count src" using compat by simp
  let ?sc = "mean_coord ar (map snd (sh_uv_data src))"
  from paste_target_writes [OF copy ne nr rd compat', of idx] obtain td n where
    td: "get_uv_shell_data s t = Inr (Some td)" and
    tud: "sh_uv_data td = stored_coords s (border_shell s t) []" and
    tso: "sh_sorted_ids td = sorted_by_vertex (shell_get_uv_to_vertex_mapping s (border_shell s t))
                                (map snd (border_shell s t))" and
    res: "paste_shell_target ar src True s idx t =
             Inr (run_writes s
                    (List.map_filter
                       (\<lambda>(tid, sid).
                          map_option (\<lambda>xy. ((fst t, tid),
                                             moved_coord ar (mean_coord ar (map snd (sh_uv_data td))) ?sc xy))
                                     (map_of (sh_uv_data src) sid))
                       (zip (sh_sorted_ids td) (sh_sorted_ids src))),
                  Inr n)"
    by blast
  let ?tc = "mean_coord ar (map snd (sh_uv_data td))"
  let ?h = "moved_coord ar ?tc ?sc"
  let ?ts = "sh_sorted_ids td"
  let ?ss = "sh_sorted_ids src"
  let ?W = "List.map_filter
              (\<lambda>(tid, sid). map_option (\<lambda>xy. ((fst t, tid), ?h xy)) (map_of (sh_uv_data src) sid))
              (zip ?ts ?ss)"
  let ?s' = "run_writes s ?W"
  have tlen: "length ?ts = sh_uv_count src"
    using compat by (simp add: tso length_sorted_by_vertex)
  have full: "distinct (map snd (border_shell s t)) \<and>
        (\<forall>c \<in> set (border_shell s t). is_Coords (uv_query s c)) \<longrightarrow>
          map snd (sh_uv_data td) = map (\<lambda>c. coords_of (uv_query s c)) (border_shell s t)"
  proof
    assume h: "distinct (map snd (border_shell s t)) \<and>
        (\<forall>c \<in> set (border_shell s t). is_Coords (uv_query s c))"
    then have d: "distinct (map snd (border_shell s t))"
      and r: "\<forall>c \<in> set (border_shell s t). is_Coords (uv_query s c)" by blast+
    have "sh_uv_data td = map (\<lambda>c. (snd c, coords_of (uv_query s c))) (border_shell s t)"
      unfolding tud stored_coords_readable [OF r]
      using fold_update_fresh [OF d, of "[]"] by simp
    then show "map snd (sh_uv_data td) = map (\<lambda>c. coords_of (uv_query s c)) (border_shell s t)"
      by (simp add: o_def)
  qed
  have sent: "drop (length (edit_calls s)) (edit_calls ?s') = ?W"
    by (simp add: run_writes_static)
  have per: "distinct (map snd (border_shell s t)) \<longrightarrow>
     (\<forall>i < sh_uv_count src.
         case map_of (sh_uv_data src) (?ss ! i) of
           Some xy \<Rightarrow>
             ((fst t, ?ts ! i), ?h xy) \<in> set ?W \<and>
             (uv_writable s (fst t, ?ts ! i) \<longrightarrow> uv_query ?s' (fst t, ?ts ! i) = Coords (?h xy))
         | None \<Rightarrow>
             (fst t, ?ts ! i) \<notin> fst ` set ?W \<and>
             uv_query ?s' (fst t, ?ts ! i) = uv_query s (fst t, ?ts ! i))"
  proof (intro impI allI)
    fix i
    assume d: "distinct (map snd (border_shell s t))" and i: "i < sh_uv_count src"
    have dts: "distinct ?ts"
      using d by (simp add: tso distinct_sorted_by_vertex)
    have "distinct (map (Pair (fst t)) ?ts)"
      using dts by (simp add: distinct_map inj_on_def)
    with map_filter_zip_targets [of "fst t" ?h "map_of (sh_uv_data src)" ?ts ?ss]
    have dW: "distinct (map fst ?W)"
      by (rule subseq_distinct)
    have it: "i < length ?ts" and "i < length ?ss" using i tlen slen by simp_all
    note isl = \<open>i < length ?ss\<close>
    show "case map_of (sh_uv_data src) (?ss ! i) of
           Some xy \<Rightarrow>
             ((fst t, ?ts ! i), ?h xy) \<in> set ?W \<and>
             (uv_writable s (fst t, ?ts ! i) \<longrightarrow> uv_query ?s' (fst t, ?ts ! i) = Coords (?h xy))
         | None \<Rightarrow>
             (fst t, ?ts ! i) \<notin> fst ` set ?W \<and>
             uv_query ?s' (fst t, ?ts ! i) = uv_query s (fst t, ?ts ! i)"
    proof (cases "map_of (sh_uv_data src) (?ss ! i)")
      case (Some xy)
      have mem: "((fst t, ?ts ! i), ?h xy) \<in> set ?W"
        using map_filter_zip_hit [of i ?ts ?ss "map_of (sh_uv_data src)" xy "fst t" ?h] it isl Some
        by simp
      have "uv_writable s (fst t, ?ts ! i) \<Longrightarrow> uv_query ?s' (fst t, ?ts ! i) = Coords (?h xy)"
        by (rule uv_query_run_writes_hit [OF dW mem])
      with mem Some show ?thesis by simp
    next
      case None
      have nw: "(fst t, ?ts ! i) \<notin> fst ` set ?W"
      proof
        assume "(fst t, ?ts ! i) \<in> fst ` set ?W"
        then obtain v where "((fst t, ?ts ! i), v) \<in> set ?W" by auto
        from map_filter_zip_mem [OF this] obtain j xy where
          j: "j < length ?ts" "j < length ?ss" "(fst t, ?ts ! i) = (fst t, ?ts ! j)"
             "map_of (sh_uv_data src) (?ss ! j) = Some xy"
          by blast
        from j(3) have "?ts ! i = ?ts ! j" by simp
        with dts it j(1) have "i = j" by (simp add: nth_eq_iff_index_eq)
        with j(4) None show False by simp
      qed
      have "uv_query ?s' (fst t, ?ts ! i) = uv_query s (fst t, ?ts ! i)"
        by (rule uv_query_run_writes_other [OF nw])
      with nw None show ?thesis by simp
    qed
  qed
  have body: "let tc = mean_coord ar (map snd (sh_uv_data td));
            sc = mean_coord ar (map snd (sh_uv_data src));
            sent = drop (length (edit_calls s)) (edit_calls ?s')
        in sent = List.map_filter
                    (\<lambda>(tid, sid). map_option (\<lambda>xy. ((fst t, tid), moved_coord ar tc sc xy))
                                              (map_of (sh_uv_data src) sid))
                    (zip (sh_sorted_ids td) (sh_sorted_ids src)) \<and>
           (distinct (map snd (border_shell s t)) \<longrightarrow>
              (\<forall>i < sh_uv_count src.
                 case map_of (sh_uv_data src) (sh_sorted_ids src ! i) of
                   Some xy \<Rightarrow>
                     ((fst t, sh_sorted_ids td ! i), moved_coord ar tc sc xy) \<in> set sent \<and>
                     (uv_writable s (fst t, sh_sorted_ids td ! i) \<longrightarrow>
                        uv_query ?s' (fst t, sh_sorted_ids td ! i) = Coords (moved_coord ar tc sc xy))
                 | None \<Rightarrow>
                     (fst t, sh_sorted_ids td ! i) \<notin> fst ` set sent \<and>
                     uv_query ?s' (fst t, sh_sorted_ids td ! i)
                       = uv_query s (fst t, sh_sorted_ids td ! i)))"
    unfolding Let_def sent using per by (intro conjI) (rule refl)
  show ?thesis
    by (intro exI conjI)
       (rule sel, rule sud, rule ctr, rule slen, rule td, rule tud, rule full, rule tlen,
        rule res, rule body)
qed

lemma example_means:
  "mean_coord double_arith [(0, 0), (2, 0)] = (1, 0)"
  "mean_coord double_arith [(10, 5), (11, 5)] = (21 / 2, 5)"
  by (simp_all add: mean_coord_def f_sum_def double_arith_def round_double_values)

lemma example_moved:
  "moved_coord double_arith (21 / 2, 5) (1, 0) (0, 0) = (19 / 2, 5)"
  "moved_coord double_arith (21 / 2, 5) (1, 0) (2, 0) = (23 / 2, 5)"
  by (simp_all add: moved_coord_def double_arith_def round_double_values)

theorem centroid_relative_paste_witness:
  "copy_uv_shell double_arith example_shell_scene [UV (''P'', 0)] None
     = (Inr (Inr ()), Some example_shell_clipboard) \<and>
   border_shell example_shell_scene (''Q'', 0) = [(''Q'', 0), (''Q'', 1)] \<and>
   list_all (\<lambda>c. uv_query example_shell_scene c \<noteq> Raises)
     (border_shell example_shell_scene (''Q'', 0)) \<and>
   list_ex (\<lambda>c. usable_coords (uv_query example_shell_scene c) \<noteq> None)
     (border_shell example_shell_scene (''Q'', 0)) \<and>
   length (border_shell example_shell_scene (''Q'', 0)) = sh_uv_count example_shell_clipboard \<and>
   sh_uv_data example_shell_clipboard = [(0, (0, 0)), (1, (2, 0))] \<and>
   sh_center example_shell_clipboard = Some (1, 0) \<and>
   (\<exists>s' n. paste_shell_target double_arith example_shell_clipboard True example_shell_scene 1 (''Q'', 0)
             = Inr (s', Inr n) \<and>
      edit_calls s' = [((''Q'', 0), (19 / 2, 5)), ((''Q'', 1), (23 / 2, 5))] \<and>
      uv_query s' (''Q'', 1) = Coords (23 / 2, 5))"
proof -
  let ?s = example_shell_scene
  let ?src = example_shell_clipboard
  have b: "border_shell ?s (''Q'', 0) = [(''Q'', 0), (''Q'', 1)]"
    by (simp add: example_shell_fields)
  have ne: "border_shell ?s (''Q'', 0) \<noteq> []" unfolding b by simp
  have nr: "\<forall>c \<in> set (border_shell ?s (''Q'', 0)). uv_query ?s c \<noteq> Raises"
    unfolding b by (simp add: example_shell_fields)
  have "usable_coords (uv_query ?s (''Q'', 0)) \<noteq> None"
    by (simp add: example_shell_fields usable_coords_def)
  then have rd: "\<exists>c \<in> set (border_shell ?s (''Q'', 0)). usable_coords (uv_query ?s c) \<noteq> None"
    unfolding b by simp
  have compat: "length (border_shell ?s (''Q'', 0)) = sh_uv_count ?src"
    unfolding b by (simp add: example_clip_data)
  from centroid_relative_paste [OF example_copy ne nr rd compat, of 1]
  obtain u rest td s' n where
    "get_selected_uv_shells ?s [UV (''P'', 0)] = Some (u # rest)" and
    "sh_uv_data ?src = stored_coords ?s (border_shell ?s u) []" and
    ctr: "sh_center ?src = Some (mean_coord double_arith (map snd (sh_uv_data ?src)))" and
    "length (sh_sorted_ids ?src) = sh_uv_count ?src" and
    td: "get_uv_shell_data ?s (''Q'', 0) = Inr (Some td)" and
    tud: "sh_uv_data td = stored_coords ?s (border_shell ?s (''Q'', 0)) []" and
    "distinct (map snd (border_shell ?s (''Q'', 0))) \<and>
        (\<forall>c \<in> set (border_shell ?s (''Q'', 0)). is_Coords (uv_query ?s c)) \<longrightarrow>
          map snd (sh_uv_data td) = map (\<lambda>c. coords_of (uv_query ?s c)) (border_shell ?s (''Q'', 0))" and
    "length (sh_sorted_ids td) = sh_uv_count ?src" and
    res: "paste_shell_target double_arith ?src True ?s 1 (''Q'', 0) = Inr (s', Inr n)" and
    body: "let tc = mean_coord double_arith (map snd (sh_uv_data td));
            sc = mean_coord double_arith (map snd (sh_uv_data ?src));
            sent = drop (length (edit_calls ?s)) (edit_calls s')
        in sent = List.map_filter
                    (\<lambda>(tid, sid). map_option (\<lambda>xy. ((fst (''Q'', 0 :: nat), tid), moved_coord double_arith tc sc xy))
                                              (map_of (sh_uv_data ?src) sid))
                    (zip (sh_sorted_ids td) (sh_sorted_ids ?src)) \<and>
           (distinct (map snd (border_shell ?s (''Q'', 0))) \<longrightarrow>
              (\<forall>i < sh_uv_count ?src.
                 case map_of (sh_uv_data ?src) (sh_sorted_ids ?src ! i) of
                   Some xy \<Rightarrow>
                     ((fst (''Q'', 0 :: nat), sh_sorted_ids td ! i), moved_coord double_arith tc sc xy) \<in> set sent \<and>
                     (uv_writable ?s (fst (''Q'', 0 :: nat), sh_sorted_ids td ! i) \<longrightarrow>
                        uv_query s' (fst (''Q'', 0 :: nat), sh_sorted_ids td ! i)
                          = Coords (moved_coord double_arith tc sc xy))
                 | None \<Rightarrow>
                     (fst (''Q'', 0 :: nat), sh_sorted_ids td ! i) \<notin> fst ` set sent \<and>
                     uv_query s' (fst (''Q'', 0 :: nat), sh_sorted_ids td ! i)
                       = uv_query ?s (fst (''Q'', 0 :: nat), sh_sorted_ids td ! i)))"
    by (elim exE conjE) (rule that)
  have tud': "sh_uv_data td = [(0, (10, 5)), (1, (11, 5))]"
    unfolding tud b by (simp add: stored_coords_def usable_coords_def example_shell_fields)
  from get_uv_shell_data_Some [OF td] have
    "sh_sorted_ids td = sorted_by_vertex (shell_get_uv_to_vertex_mapping ?s (border_shell ?s (''Q'', 0)))
                          (map snd (border_shell ?s (''Q'', 0)))"
    by simp
  then have tso: "sh_sorted_ids td = [0, 1]"
    unfolding b using example_order [OF example_shell_fields(3), of "''Q''"] by simp
  have c: "sh_center ?src = Some (1, 0)"
    unfolding ctr by (simp add: example_clip_data example_means)
  note body' = body [unfolded Let_def]
  have sent: "edit_calls s' = [((''Q'', 0), (19 / 2, 5)), ((''Q'', 1), (23 / 2, 5))]"
    using conjunct1 [OF body'] unfolding tud' tso example_clip_data
    by (simp add: example_means example_moved example_shell_fields List.map_filter_simps)
  have d: "distinct (map snd (border_shell ?s (''Q'', 0)))" unfolding b by simp
  have one: "1 < sh_uv_count ?src" by (simp add: example_clip_data)
  note per = conjunct2 [OF body', rule_format, OF d one]
  have "uv_query s' (''Q'', 1) = Coords (23 / 2, 5)"
    using per unfolding tud' tso example_clip_data
    by (simp add: example_means example_moved example_shell_fields)
  with res sent have "\<exists>s' n. paste_shell_target double_arith ?src True ?s 1 (''Q'', 0) = Inr (s', Inr n) \<and>
      edit_calls s' = [((''Q'', 0), (19 / 2, 5)), ((''Q'', 1), (23 / 2, 5))] \<and>
      uv_query s' (''Q'', 1) = Coords (23 / 2, 5)"
    by blast
  then show ?thesis
    using example_copy b nr rd compat c example_clip_data(2)
    unfolding list_all_iff list_ex_iff by blast
qed

section \<open>Completeness of the write loops\<close>

lemma map_fst_writes:
  "map fst (map (\<lambda>(t, xy). ((obj, t), f xy)) pw) = map (Pair obj) (map fst pw)"
  by (simp add: o_def case_prod_beta)

lemma length_filter_writes:
  "length (filter (\<lambda>(t, r). P t) pw) = length (filter P (map fst pw))"
  by (induction pw) auto

text \<open>
  Claim C5, as stated, fails in the shell tool. The clipboard copied from shell \<open>G\<close>
  holds the order \<open>[0, 1]\<close> but an offset for index \<open>0\<close> only, the query of
  \<open>G.map[1]\<close> having returned nothing. Against a target order of two points the write
  loop sends one write, not \<open>min 2 2 = 2\<close>.
\<close>

theorem shell_loop_attempts_counterexample:
  "copy_uv_shell double_arith example_faulty_scene [UV (''G'', 0)] None
     = (Inr (Inr ()), Some example_gap_clipboard) \<and>
   min (length [0, 1 :: nat]) (length (sh_sorted_ids example_gap_clipboard)) = 2 \<and>
   (case apply_relative_coords double_arith ''Q'' (sh_relative_coords example_gap_clipboard) (1, 0)
           [0, 1] (sh_sorted_ids example_gap_clipboard) (example_faulty_scene, 0) of
      Inr (s', apply_count) \<Rightarrow> map fst (edit_calls s') = [(''Q'', 0)] \<and> apply_count = 1
    | Inl e \<Rightarrow> False)"
proof -
  from snapshot_of_copy [OF example_gap_copy] obtain rel where
    rel: "sh_relative_coords example_gap_clipboard = Some rel" and
    relv: "rel = map (\<lambda>(uv_id, coords).
              (uv_id, (f_sub double_arith (fst coords)
                         (fst (mean_coord double_arith (map snd (sh_uv_data example_gap_clipboard)))),
                       f_sub double_arith (snd coords)
                         (snd (mean_coord double_arith (map snd (sh_uv_data example_gap_clipboard)))))))
              (sh_uv_data example_gap_clipboard)"
    by blast
  have k: "map fst rel = [0]"
    unfolding relv example_gap_data by simp
  then obtain r where r: "rel = [(0, r)]"
    by (cases rel) auto
  show ?thesis
    unfolding rel apply_relative_coords_run
    by (simp add: example_gap_copy example_gap_data r paired_writes_Cons run_writes_static
          example_faulty_fields)
qed

text \<open>
  Claim C5, amended. In the whole-mesh tool the write loop sends a write for every one
  of the \<open>min (length target_order) (length source_order)\<close> positional pairs, to the
  target points in order, whether or not earlier writes failed; \<open>apply_count\<close> counts
  exactly the accepted writes and \<open>error_count\<close> exactly the failed ones. In the shell
  tool the write loop sends a write for exactly the positional pairs whose source index
  has a stored offset, in order, again whether or not earlier writes failed; these are
  all \<open>min (length target_order) (length source_order)\<close> pairs when every source index
  has one. A failed write is caught there too, but it is only printed: \<open>apply_count\<close>
  counts the accepted writes and nothing counts the failed ones.
\<close>

theorem transfer_attempts_every_pair:
  "(case apply_uv_data tm (m_uv_data (get_mesh_uv_data s0 src)) ts
           (m_sorted_uv_ids (get_mesh_uv_data s0 src)) (s, 0, 0) of
      (s', apply_count, error_count) \<Rightarrow>
        (let n = min (length ts) (length (m_sorted_uv_ids (get_mesh_uv_data s0 src)))
         in map fst (drop (length (edit_calls s)) (edit_calls s')) = map (Pair tm) (take n ts) \<and>
            apply_count = length (filter (\<lambda>t. uv_writable s (tm, t)) (take n ts)) \<and>
            error_count = length (filter (\<lambda>t. \<not> uv_writable s (tm, t)) (take n ts)) \<and>
            apply_count + error_count = n)) \<and>
   (\<exists>s' apply_count.
      apply_relative_coords ar obj (Some rel) ctr ts ss (s, 0) = Inr (s', apply_count) \<and>
      (let paired = map fst (List.map_filter (\<lambda>(t, src). map_option (Pair t) (map_of rel src))
                               (zip ts ss))
       in map fst (drop (length (edit_calls s)) (edit_calls s')) = map (Pair obj) paired \<and>
          apply_count = length (filter (\<lambda>t. uv_writable s (obj, t)) paired) \<and>
          ((\<forall>src \<in> set ss. map_of rel src \<noteq> None) \<longrightarrow>
             paired = take (min (length ts) (length ss)) ts)))"
proof (rule conjI)
  let ?d = "get_mesh_uv_data s0 src"
  let ?n = "min (length ts) (length (m_sorted_uv_ids ?d))"
  let ?pw = "paired_writes (m_uv_data ?d) ts (m_sorted_uv_ids ?d)"
  have all: "\<forall>k \<in> set (m_sorted_uv_ids ?d). map_of (m_uv_data ?d) k \<noteq> None"
    by (simp add: mesh_sorted_ids_have_data)
  have tg: "map fst (map (\<lambda>(t, xy). ((tm, t), xy)) ?pw) = map (Pair tm) (take ?n ts)"
    using map_fst_paired_writes_total [OF all, of ts] map_fst_writes [of tm "\<lambda>xy. xy" ?pw]
    by simp
  have a: "length (filter (\<lambda>(t, xy). uv_writable s (tm, t)) ?pw)
             = length (filter (\<lambda>t. uv_writable s (tm, t)) (take ?n ts))"
    by (rule length_filter_paired_total [OF all])
  have e: "length (filter (\<lambda>(t, xy). \<not> uv_writable s (tm, t)) ?pw)
             = length (filter (\<lambda>t. \<not> uv_writable s (tm, t)) (take ?n ts))"
    by (rule length_filter_paired_total [OF all])
  have sum: "length (filter (\<lambda>t. uv_writable s (tm, t)) (take ?n ts))
           + length (filter (\<lambda>t. \<not> uv_writable s (tm, t)) (take ?n ts)) = ?n"
    using sum_length_filter_compl [of "\<lambda>t. uv_writable s (tm, t)" "take ?n ts"] by simp
  show "case apply_uv_data tm (m_uv_data ?d) ts (m_sorted_uv_ids ?d) (s, 0, 0) of
      (s', apply_count, error_count) \<Rightarrow>
        (let n = min (length ts) (length (m_sorted_uv_ids ?d))
         in map fst (drop (length (edit_calls s)) (edit_calls s')) = map (Pair tm) (take n ts) \<and>
            apply_count = length (filter (\<lambda>t. uv_writable s (tm, t)) (take n ts)) \<and>
            error_count = length (filter (\<lambda>t. \<not> uv_writable s (tm, t)) (take n ts)) \<and>
            apply_count + error_count = n)"
    unfolding apply_uv_data_run Let_def prod.case
    using tg a e sum by (simp add: run_writes_static del: map_map)
next
  let ?pw = "paired_writes rel ts ss"
  let ?W = "map (\<lambda>(t, r). ((obj, t), (f_add ar (fst ctr) (fst r), f_add ar (snd ctr) (snd r)))) ?pw"
  let ?paired = "map fst (List.map_filter (\<lambda>(t, src). map_option (Pair t) (map_of rel src)) (zip ts ss))"
  have p: "?paired = map fst ?pw"
    by (simp add: paired_writes_def)
  have run: "apply_relative_coords ar obj (Some rel) ctr ts ss (s, 0)
      = Inr (run_writes s ?W, length (filter (\<lambda>(t, r). uv_writable s (obj, t)) ?pw))"
    unfolding apply_relative_coords_run by simp
  have tg: "map fst ?W = map (Pair obj) ?paired"
    unfolding p
    by (rule map_fst_writes [of obj "\<lambda>r. (f_add ar (fst ctr) (fst r), f_add ar (snd ctr) (snd r))" ?pw])
  have calls: "map fst (drop (length (edit_calls s)) (edit_calls (run_writes s ?W)))
                 = map (Pair obj) ?paired"
    using tg by (simp add: run_writes_static del: map_map)
  have a: "length (filter (\<lambda>(t, r). uv_writable s (obj, t)) ?pw)
             = length (filter (\<lambda>t. uv_writable s (obj, t)) ?paired)"
    unfolding p by (rule length_filter_writes)
  have full: "(\<forall>src \<in> set ss. map_of rel src \<noteq> None) \<longrightarrow>
                ?paired = take (min (length ts) (length ss)) ts"
    unfolding p using map_fst_paired_writes_total [of ss rel ts] by blast
  show "\<exists>s' apply_count.
      apply_relative_coords ar obj (Some rel) ctr ts ss (s, 0) = Inr (s', apply_count) \<and>
      (let paired = map fst (List.map_filter (\<lambda>(t, src). map_option (Pair t) (map_of rel src))
                               (zip ts ss))
       in map fst (drop (length (edit_calls s)) (edit_calls s')) = map (Pair obj) paired \<and>
          apply_count = length (filter (\<lambda>t. uv_writable s (obj, t)) paired) \<and>
          ((\<forall>src \<in> set ss. map_of rel src \<noteq> None) \<longrightarrow>
             paired = take (min (length ts) (length ss)) ts))"
    unfolding Let_def
    by (intro exI conjI) (rule run, rule calls, rule a, rule full)
qed

theorem transfer_attempts_every_pair_witness:
  "list_all (\<lambda>src. map_of [(0, (- 1, 0)), (1, (1, 0 :: real))] src \<noteq> None) [0, 1] \<and>
   (case apply_uv_data ''B'' (m_uv_data (get_mesh_uv_data example_mesh_scene ''A'')) [0, 1, 2, 3]
           (m_sorted_uv_ids (get_mesh_uv_data example_mesh_scene ''A'')) (example_mesh_scene, 0, 0) of
      (s', apply_count, error_count) \<Rightarrow>
         map fst (edit_calls s') = [(''B'', 0), (''B'', 1), (''B'', 2), (''B'', 3)] \<and>
         apply_count = 3 \<and> error_count = 1) \<and>
   (\<exists>s' apply_count.
      apply_relative_coords double_arith ''Q'' (Some [(0, (- 1, 0)), (1, (1, 0))]) (21 / 2, 5) [0, 1]
          [0, 1] (example_shell_scene, 0)
        = Inr (s', apply_count) \<and>
      map fst (edit_calls s') = [(''Q'', 0), (''Q'', 1)] \<and> apply_count = 2)"
proof -
  have h: "\<forall>src \<in> set [0, 1]. map_of [(0, (- 1, 0)), (1, (1, 0 :: real))] src \<noteq> None"
    by simp
  have w: "uv_writable example_mesh_scene = (\<lambda>c. c \<noteq> (''B'', 1))"
    "edit_calls example_mesh_scene = []"
    by (simp_all add: example_mesh_scene_def)
  note t = transfer_attempts_every_pair [where tm = "''B''" and ?s0.0 = example_mesh_scene
      and src = "''A''" and ts = "[0, 1]" and s = example_shell_scene and ar = double_arith
      and obj = "''Q''" and rel = "[(0, (- 1, 0)), (1, (1, 0))]" and ctr = "(21 / 2, 5)"
      and ss = "[0, 1]"]
  note m = transfer_attempts_every_pair [where tm = "''B''" and ?s0.0 = example_mesh_scene
      and src = "''A''" and ts = "[0, 1, 2, 3]" and s = example_mesh_scene and ar = double_arith
      and obj = "''Q''" and rel = "[(0, (- 1, 0)), (1, (1, 0))]" and ctr = "(21 / 2, 5)"
      and ss = "[0, 1]"]
  have a: "case apply_uv_data ''B'' (m_uv_data (get_mesh_uv_data example_mesh_scene ''A'')) [0, 1, 2, 3]
           (m_sorted_uv_ids (get_mesh_uv_data example_mesh_scene ''A'')) (example_mesh_scene, 0, 0) of
      (s', apply_count, error_count) \<Rightarrow>
         map fst (edit_calls s') = [(''B'', 0), (''B'', 1), (''B'', 2), (''B'', 3)] \<and>
         apply_count = 3 \<and> error_count = 1"
    using conjunct1 [OF m]
    by (simp add: example_mesh_sorted_ids w Let_def numeral_2_eq_2 numeral_3_eq_3
          del: apply_uv_data.simps split: prod.splits)
  have b: "\<exists>s' apply_count.
      apply_relative_coords double_arith ''Q'' (Some [(0, (- 1, 0)), (1, (1, 0))]) (21 / 2, 5) [0, 1]
          [0, 1] (example_shell_scene, 0)
        = Inr (s', apply_count) \<and>
      map fst (edit_calls s') = [(''Q'', 0), (''Q'', 1)] \<and> apply_count = 2"
    using conjunct2 [OF t]
    by (simp add: example_shell_fields Let_def List.map_filter_simps numeral_2_eq_2
          del: apply_relative_coords.simps)
  show ?thesis
    using h a b unfolding list_all_iff by blast
qed

section \<open>Batches of targets\<close>

lemma mesh_target_failure_eq:
  "mesh_target_failure d s obj =
     (case target_mesh_of s obj of
        None \<Rightarrow> Some (NotAMesh (short_name obj))
      | Some tm \<Rightarrow> check_topology d (short_name obj) (poly_counts s tm))"
  by (simp add: mesh_target_failure_def paste_mesh_target_def Let_def
           split: option.splits prod.splits)

lemma mesh_target_failure_run_writes:
  "mesh_target_failure d (run_writes s ws) obj = mesh_target_failure d s obj"
  by (simp add: mesh_target_failure_eq target_mesh_of_def run_writes_static
           split: option.splits list.splits)

lemma paste_mesh_target_result:
  "\<exists>ws. paste_mesh_target d s obj =
          (run_writes s ws,
           case mesh_target_failure d s obj of
             Some f \<Rightarrow> Inl f
           | None \<Rightarrow> snd (paste_mesh_target d s obj))"
proof (cases "mesh_target_failure d s obj")
  case None
  then obtain tm where tm: "target_mesh_of s obj = Some tm"
    and ok: "check_topology d (short_name obj) (poly_counts s tm) = None"
    by (auto simp: mesh_target_failure_eq split: option.splits)
  show ?thesis
    using paste_mesh_target_pass [OF tm ok] None by auto
next
  case (Some f)
  then have "paste_mesh_target d s obj = (s, Inl f)"
    by (auto simp: mesh_target_failure_eq paste_mesh_target_def split: option.splits)
  then have "paste_mesh_target d s obj = (run_writes s [], Inl f)" by simp
  with Some show ?thesis by (intro exI [of _ "[]"]) simp
qed

lemma paste_mesh_target_pass_Inr:
  "mesh_target_failure d s obj = None \<Longrightarrow> \<exists>c. snd (paste_mesh_target d s obj) = Inr c"
  by (cases "snd (paste_mesh_target d s obj)") (simp_all add: mesh_target_failure_def)

lemma paste_mesh_targets_closed:
  "\<exists>ws. paste_mesh_targets d objs (s, sc, fl) =
          (run_writes s ws,
           sc + length (filter (\<lambda>obj. mesh_target_failure d s obj = None) objs),
           fl @ List.map_filter (mesh_target_failure d s) objs)"
proof (induction objs arbitrary: s sc fl)
  case Nil
  show ?case by (intro exI [of _ "[]"]) (simp add:)
next
  case (Cons obj objs)
  from paste_mesh_target_result [of d s obj] obtain ws where
    r: "paste_mesh_target d s obj =
          (run_writes s ws,
           case mesh_target_failure d s obj of
             Some f \<Rightarrow> Inl f
           | None \<Rightarrow> snd (paste_mesh_target d s obj))"
    by blast
  have st: "\<And>x. mesh_target_failure d (run_writes s ws) x = mesh_target_failure d s x"
    by (rule mesh_target_failure_run_writes)
  show ?case
  proof (cases "mesh_target_failure d s obj")
    case None
    with paste_mesh_target_pass_Inr obtain c where c: "snd (paste_mesh_target d s obj) = Inr c"
      by blast
    from Cons [of "run_writes s ws" "sc + 1" fl] obtain vs where
      "paste_mesh_targets d objs (run_writes s ws, sc + 1, fl) =
          (run_writes (run_writes s ws) vs,
           sc + 1 + length (filter (\<lambda>obj. mesh_target_failure d s obj = None) objs),
           fl @ List.map_filter (mesh_target_failure d s) objs)"
      unfolding st by blast
    then have "paste_mesh_targets d (obj # objs) (s, sc, fl) =
          (run_writes s (ws @ vs),
           sc + length (filter (\<lambda>obj. mesh_target_failure d s obj = None) (obj # objs)),
           fl @ List.map_filter (mesh_target_failure d s) (obj # objs))"
      using r None c by (simp add: run_writes_append)
    then show ?thesis by blast
  next
    case (Some f)
    from Cons [of "run_writes s ws" sc "fl @ [f]"] obtain vs where
      "paste_mesh_targets d objs (run_writes s ws, sc, fl @ [f]) =
          (run_writes (run_writes s ws) vs,
           sc + length (filter (\<lambda>obj. mesh_target_failure d s obj = None) objs),
           (fl @ [f]) @ List.map_filter (mesh_target_failure d s) objs)"
      unfolding st by blast
    then have "paste_mesh_targets d (obj # objs) (s, sc, fl) =
          (run_writes s (ws @ vs),
           sc + length (filter (\<lambda>obj. mesh_target_failure d s obj = None) (obj # objs)),
           fl @ List.map_filter (mesh_target_failure d s) (obj # objs))"
      using r Some by (simp add: run_writes_append)
    then show ?thesis by blast
  qed
qed

lemma length_map_filter_compl:
  "length (filter (\<lambda>x. f x = None) xs) + length (List.map_filter f xs) = length xs"
  by (induction xs) (auto simp: List.map_filter_simps split: option.splits)

lemma length_map_filter_compl_pair:
  "length (filter (\<lambda>(i, t). f i t = None) xs) + length (List.map_filter (\<lambda>(i, t). f i t) xs)
     = length xs"
  by (induction xs) (auto split: option.splits)

lemma is_Coords_run_writes:
  "is_Coords (uv_query s c) \<Longrightarrow> is_Coords (uv_query (run_writes s ws) c)"
proof (induction ws arbitrary: s)
  case Nil
  then show ?case by simp
next
  case (Cons w ws)
  obtain c1 xy where w: "w = (c1, xy)" by (cases w)
  have "is_Coords (uv_query (snd (polyEditUV_set s c1 xy)) c)"
    using Cons.prems by (simp add: uv_query_polyEditUV_set)
  from Cons.IH [OF this] show ?case by (simp add: w run_writes_Cons)
qed

lemma shell_target_failure_run_writes:
  "shell_target_failure d mt (run_writes s ws) idx t = shell_target_failure d mt s idx t"
  by (simp add: shell_target_failure_def run_writes_static)

lemma paste_shell_target_result:
  assumes rel: "sh_relative_coords d = Some rel"
      and rd: "\<forall>c. is_Coords (uv_query s c)"
  shows "\<exists>ws n. paste_shell_target ar d mt s idx t =
           Inr (run_writes s ws,
                case shell_target_failure d mt s idx t of Some f \<Rightarrow> Inl f | None \<Rightarrow> Inr n)"
proof (cases "border_shell s t")
  case Nil
  then have "paste_shell_target ar d mt s idx t = Inr (run_writes s [], Inl (NoShellData idx))"
    by (simp add: paste_shell_target_def get_uv_shell_data_def)
  then show ?thesis
    by (intro exI [of _ "[]"]) (simp add: shell_target_failure_def Nil)
next
  case (Cons c cs)
  then have ne: "border_shell s t \<noteq> []" by simp
  have rd': "\<forall>c \<in> set (border_shell s t). is_Coords (uv_query s c)" using rd by blast
  from get_uv_shell_data_readable [OF ne rd'] obtain td where
    td: "get_uv_shell_data s t = Inr (Some td)" and
    obj: "sh_object td = fst t" and
    cnt: "sh_uv_count td = length (border_shell s t)" and
    tud: "sh_uv_data td = fold (\<lambda>c. AList.update (snd c) (coords_of (uv_query s c))) (border_shell s t) []"
    by blast
  have tne: "sh_uv_data td \<noteq> []" unfolding tud by (rule fold_update_nonempty [OF ne])
  show ?thesis
  proof (cases "mt \<and> length (border_shell s t) \<noteq> sh_uv_count d")
    case True
    then have "paste_shell_target ar d mt s idx t =
        Inr (run_writes s [], Inl (ShellUVCountMismatch idx (fst t) (length (border_shell s t)) (sh_uv_count d)))"
      by (simp add: paste_shell_target_def td check_uv_count_def cnt obj)
    with True show ?thesis
      by (intro exI [of _ "[]"]) (simp add: shell_target_failure_def Cons)
  next
    case False
    then have chk: "check_uv_count mt d idx td = None"
      by (auto simp: check_uv_count_def cnt)
    from False have "shell_target_failure d mt s idx t = None"
      by (auto simp: shell_target_failure_def Cons)
    with paste_shell_target_pass [OF rel td tne chk, where ar = ar] show ?thesis
      by auto
  qed
qed

lemma paste_shell_targets_closed:
  assumes rel: "sh_relative_coords d = Some rel"
  shows "\<forall>c. is_Coords (uv_query s c) \<Longrightarrow>
    \<exists>ws. paste_shell_targets ar d mt idx ts (s, sc, fl) =
      Inr (run_writes s ws,
           sc + length (filter (\<lambda>(i, t). shell_target_failure d mt s i t = None)
                          (List.enumerate idx ts)),
           fl @ List.map_filter (\<lambda>(i, t). shell_target_failure d mt s i t)
                  (List.enumerate idx ts))"
proof (induction ts arbitrary: s sc fl idx)
  case Nil
  show ?case by (intro exI [of _ "[]"]) (simp add:)
next
  case (Cons t ts)
  from paste_shell_target_result [OF rel Cons.prems, where ar = ar and mt = mt and idx = idx and t = t]
  obtain ws n where
    r: "paste_shell_target ar d mt s idx t =
           Inr (run_writes s ws,
                case shell_target_failure d mt s idx t of Some f \<Rightarrow> Inl f | None \<Rightarrow> Inr n)"
    by blast
  have rd1: "\<forall>c. is_Coords (uv_query (run_writes s ws) c)"
    using Cons.prems by (simp add: is_Coords_run_writes)
  have st: "\<And>i u. shell_target_failure d mt (run_writes s ws) i u = shell_target_failure d mt s i u"
    by (rule shell_target_failure_run_writes)
  have z: "List.enumerate idx (t # ts) = (idx, t) # List.enumerate (Suc idx) ts"
    by simp
  show ?case
  proof (cases "shell_target_failure d mt s idx t")
    case None
    from Cons.IH [OF rd1, of "Suc idx" "sc + 1" fl] obtain vs where
      "paste_shell_targets ar d mt (Suc idx) ts (run_writes s ws, sc + 1, fl) =
        Inr (run_writes (run_writes s ws) vs,
           sc + 1 + length (filter (\<lambda>(i, t). shell_target_failure d mt s i t = None)
                          (List.enumerate (Suc idx) ts)),
           fl @ List.map_filter (\<lambda>(i, t). shell_target_failure d mt s i t)
                  (List.enumerate (Suc idx) ts))"
      unfolding st by blast
    then have "paste_shell_targets ar d mt idx (t # ts) (s, sc, fl) =
      Inr (run_writes s (ws @ vs),
           sc + length (filter (\<lambda>(i, t). shell_target_failure d mt s i t = None)
                          (List.enumerate idx (t # ts))),
           fl @ List.map_filter (\<lambda>(i, t). shell_target_failure d mt s i t)
                  (List.enumerate idx (t # ts)))"
      unfolding z using r None by (simp add: run_writes_append)
    then show ?thesis by blast
  next
    case (Some f)
    from Cons.IH [OF rd1, of "Suc idx" sc "fl @ [f]"] obtain vs where
      "paste_shell_targets ar d mt (Suc idx) ts (run_writes s ws, sc, fl @ [f]) =
        Inr (run_writes (run_writes s ws) vs,
           sc + length (filter (\<lambda>(i, t). shell_target_failure d mt s i t = None)
                          (List.enumerate (Suc idx) ts)),
           (fl @ [f]) @ List.map_filter (\<lambda>(i, t). shell_target_failure d mt s i t)
                  (List.enumerate (Suc idx) ts))"
      unfolding st by blast
    then have "paste_shell_targets ar d mt idx (t # ts) (s, sc, fl) =
      Inr (run_writes s (ws @ vs),
           sc + length (filter (\<lambda>(i, t). shell_target_failure d mt s i t = None)
                          (List.enumerate idx (t # ts))),
           fl @ List.map_filter (\<lambda>(i, t). shell_target_failure d mt s i t)
                  (List.enumerate idx (t # ts)))"
      unfolding z using r Some by (simp add: run_writes_append)
    then show ?thesis by blast
  qed
qed

lemma get_selected_uv_shells_nonempty:
  "get_selected_uv_shells s sel = Some shells \<Longrightarrow> shells \<noteq> []"
  by (auto simp: get_selected_uv_shells_def split: if_splits list.splits)

lemma example_selected_shells:
  "get_selected_uv_shells example_shell_scene [UV (''Q'', 0), UV (''R'', 0), UV (''T'', 0)]
     = Some [(''Q'', 0), (''R'', 0), (''T'', 0)]"
  by code_simp

lemma example_mesh_failures:
  "mesh_target_failure (get_mesh_uv_data example_mesh_scene ''A'') example_mesh_scene ''B'' = None"
  "mesh_target_failure (get_mesh_uv_data example_mesh_scene ''A'') example_mesh_scene ''C''
     = Some (UVCountMismatch ''C'' 3 4)"
  "mesh_target_failure (get_mesh_uv_data example_mesh_scene ''A'') example_mesh_scene ''D'' = None"
  by (simp_all add: mesh_target_failure_eq target_mesh_of_def check_topology_def
        mesh_snapshot_fields uv_count_of_def short_name_def example_mesh_scene_def)

lemma example_shell_failures:
  "shell_target_failure example_shell_clipboard True example_shell_scene idx (''Q'', 0) = None"
  "shell_target_failure example_shell_clipboard True example_shell_scene idx (''R'', 0)
     = Some (ShellUVCountMismatch idx ''R'' 3 2)"
  "shell_target_failure example_shell_clipboard True example_shell_scene idx (''T'', 0) = None"
  by (simp_all add: shell_target_failure_def example_clip_data example_shell_scene_def)

text \<open>
  The report of a batch. The whole-mesh tool handles every target, in input order: a
  target that fails the compatibility check adds its failure entry and the loop goes on
  with the next one, and the success count plus the length of the failure list is the
  number of targets. The shell tool does the same as long as the host returns
  coordinates for every UV point it is asked about.
\<close>

lemma batch_report:
  "((if sel_transforms \<noteq> [] then sel_transforms else sel_meshes) \<noteq> [] \<longrightarrow>
      (\<exists>s' rep. paste_uv_to_mesh (Some d) s sel_transforms sel_meshes = (s', Inr rep) \<and>
         mr_total_count rep = length (if sel_transforms \<noteq> [] then sel_transforms else sel_meshes) \<and>
         mr_success_count rep + length (mr_failed_list rep) = mr_total_count rep \<and>
         mr_failed_list rep =
           List.map_filter (mesh_target_failure d s)
             (if sel_transforms \<noteq> [] then sel_transforms else sel_meshes) \<and>
         mr_success_count rep =
           length (filter (\<lambda>obj. mesh_target_failure d s obj = None)
             (if sel_transforms \<noteq> [] then sel_transforms else sel_meshes)))) \<and>
   (copy_uv_shell ar s0 sel0 old = (Inr (Inr ()), Some sd) \<and>
    (\<forall>c. is_Coords (uv_query s1 c)) \<and>
    get_selected_uv_shells s1 sel = Some shells \<longrightarrow>
      (\<exists>s' rep. paste_uv_shell ar (Some sd) mt s1 sel = Inr (s', Inr rep) \<and>
         sr_total_shells rep = length shells \<and>
         sr_success_count rep + length (sr_failed_list rep) = sr_total_shells rep \<and>
         sr_failed_list rep =
           List.map_filter (\<lambda>(i, t). shell_target_failure sd mt s1 i t)
             (List.enumerate 1 shells) \<and>
         sr_success_count rep =
           length (filter (\<lambda>(i, t). shell_target_failure sd mt s1 i t = None)
             (List.enumerate 1 shells))))"
proof (intro conjI impI)
  let ?sel = "if sel_transforms \<noteq> [] then sel_transforms else sel_meshes"
  assume ne: "?sel \<noteq> []"
  from paste_mesh_targets_closed [of d ?sel s 0 "[]"] obtain ws where
    r: "paste_mesh_targets d ?sel (s, 0, []) =
          (run_writes s ws,
           0 + length (filter (\<lambda>obj. mesh_target_failure d s obj = None) ?sel),
           [] @ List.map_filter (mesh_target_failure d s) ?sel)"
    by blast
  let ?rep = "\<lparr>mr_total_count = length ?sel,
               mr_success_count = length (filter (\<lambda>obj. mesh_target_failure d s obj = None) ?sel),
               mr_failed_list = List.map_filter (mesh_target_failure d s) ?sel\<rparr>"
  have p: "paste_uv_to_mesh (Some d) s sel_transforms sel_meshes = (run_writes s ws, Inr ?rep)"
    using ne r unfolding paste_uv_to_mesh_def Let_def by simp
  have c: "mr_success_count ?rep + length (mr_failed_list ?rep) = mr_total_count ?rep"
    using length_map_filter_compl [of "mesh_target_failure d s" ?sel] by simp
  show "\<exists>s' rep. paste_uv_to_mesh (Some d) s sel_transforms sel_meshes = (s', Inr rep) \<and>
         mr_total_count rep = length ?sel \<and>
         mr_success_count rep + length (mr_failed_list rep) = mr_total_count rep \<and>
         mr_failed_list rep = List.map_filter (mesh_target_failure d s) ?sel \<and>
         mr_success_count rep = length (filter (\<lambda>obj. mesh_target_failure d s obj = None) ?sel)"
    using p c by (intro exI [of _ "run_writes s ws"] exI [of _ ?rep]) simp
next
  assume h: "copy_uv_shell ar s0 sel0 old = (Inr (Inr ()), Some sd) \<and>
    (\<forall>c. is_Coords (uv_query s1 c)) \<and> get_selected_uv_shells s1 sel = Some shells"
  then have copy: "copy_uv_shell ar s0 sel0 old = (Inr (Inr ()), Some sd)"
    and rd: "\<forall>c. is_Coords (uv_query s1 c)"
    and sh: "get_selected_uv_shells s1 sel = Some shells"
    by blast+
  from copy_uv_shell_success [OF copy] obtain rel where rel: "sh_relative_coords sd = Some rel"
    by blast
  have ne: "shells \<noteq> []" by (rule get_selected_uv_shells_nonempty [OF sh])
  let ?z = "List.enumerate 1 shells"
  from paste_shell_targets_closed [OF rel rd, where ar = ar and mt = mt and idx = 1
      and ts = shells and sc = 0 and fl = "[]"]
  obtain ws where
    r: "paste_shell_targets ar sd mt 1 shells (s1, 0, []) =
      Inr (run_writes s1 ws,
           0 + length (filter (\<lambda>(i, t). shell_target_failure sd mt s1 i t = None) ?z),
           [] @ List.map_filter (\<lambda>(i, t). shell_target_failure sd mt s1 i t) ?z)"
    by blast
  let ?rep = "\<lparr>sr_total_shells = length shells,
               sr_success_count = length (filter (\<lambda>(i, t). shell_target_failure sd mt s1 i t = None) ?z),
               sr_failed_list = List.map_filter (\<lambda>(i, t). shell_target_failure sd mt s1 i t) ?z\<rparr>"
  have p: "paste_uv_shell ar (Some sd) mt s1 sel = Inr (run_writes s1 ws, Inr ?rep)"
    using ne r sh unfolding paste_uv_shell_def by simp
  have c: "sr_success_count ?rep + length (sr_failed_list ?rep) = sr_total_shells ?rep"
    using length_map_filter_compl_pair [of "shell_target_failure sd mt s1" ?z] by simp
  show "\<exists>s' rep. paste_uv_shell ar (Some sd) mt s1 sel = Inr (s', Inr rep) \<and>
         sr_total_shells rep = length shells \<and>
         sr_success_count rep + length (sr_failed_list rep) = sr_total_shells rep \<and>
         sr_failed_list rep = List.map_filter (\<lambda>(i, t). shell_target_failure sd mt s1 i t) ?z \<and>
         sr_success_count rep =
           length (filter (\<lambda>(i, t). shell_target_failure sd mt s1 i t = None) ?z)"
    using p c by (intro exI [of _ "run_writes s1 ws"] exI [of _ ?rep]) simp
qed

lemma example_batch_report:
  "(if [] \<noteq> [] then [] else [''B'', ''C'', ''D'']) \<noteq> ([] :: node list) \<and>
   copy_uv_shell double_arith example_shell_scene [UV (''P'', 0)] None
     = (Inr (Inr ()), Some example_shell_clipboard) \<and>
   (\<forall>c. is_Coords (uv_query example_shell_scene c)) \<and>
   get_selected_uv_shells example_shell_scene [UV (''Q'', 0), UV (''R'', 0), UV (''T'', 0)]
     = Some [(''Q'', 0), (''R'', 0), (''T'', 0)] \<and>
   (\<exists>s' rep. paste_uv_to_mesh (Some (get_mesh_uv_data example_mesh_scene ''A''))
                 example_mesh_scene [] [''B'', ''C'', ''D''] = (s', Inr rep) \<and>
        mr_total_count rep = 3 \<and> mr_success_count rep = 2 \<and>
        mr_failed_list rep = [UVCountMismatch ''C'' 3 4]) \<and>
   (\<exists>s' rep. paste_uv_shell double_arith (Some example_shell_clipboard) True example_shell_scene
                 [UV (''Q'', 0), UV (''R'', 0), UV (''T'', 0)] = Inr (s', Inr rep) \<and>
        sr_total_shells rep = 3 \<and> sr_success_count rep = 2 \<and>
        sr_failed_list rep = [ShellUVCountMismatch 2 ''R'' 3 2])"
proof -
  have h2: "\<forall>c. is_Coords (uv_query example_shell_scene c)"
    by (simp add: example_shell_scene_def)
  have e: "List.enumerate 1 [(''Q'', 0 :: nat), (''R'', 0), (''T'', 0)]
             = [(1, (''Q'', 0)), (2, (''R'', 0)), (3, (''T'', 0))]"
    by (simp add: numeral_2_eq_2 numeral_3_eq_3)
  from batch_report [where sel_transforms = "[]" and sel_meshes = "[''B'', ''C'', ''D'']"
      and d = "get_mesh_uv_data example_mesh_scene ''A''" and s = example_mesh_scene
      and ar = double_arith
      and ?s0.0 = example_shell_scene and ?sel0.0 = "[UV (''P'', 0)]" and old = None
      and sd = example_shell_clipboard and ?s1.0 = example_shell_scene
      and sel = "[UV (''Q'', 0), UV (''R'', 0), UV (''T'', 0)]"
      and shells = "[(''Q'', 0), (''R'', 0), (''T'', 0)]" and mt = True]
    example_copy h2 example_selected_shells
  show ?thesis
    unfolding e
    by (simp add: example_mesh_failures example_shell_failures numeral_2_eq_2 numeral_3_eq_3)
       blast
qed

lemma paste_target_writes_node:
  assumes copy: "copy_uv_shell ar s0 sel old = (Inr (Inr ()), Some src)"
      and ne: "border_shell s t \<noteq> []"
      and nr: "\<forall>c \<in> set (border_shell s t). uv_query s c \<noteq> Raises"
      and rd: "\<exists>c \<in> set (border_shell s t). usable_coords (uv_query s c) \<noteq> None"
      and compat: "mt \<longrightarrow> length (border_shell s t) = sh_uv_count src"
  shows "\<exists>ws n. paste_shell_target ar src mt s idx t = Inr (run_writes s ws, Inr n) \<and>
                 (\<forall>c \<in> fst ` set ws. fst c = fst t)"
proof -
  from paste_target_writes [OF copy ne nr rd compat, of idx] obtain td n where
    "get_uv_shell_data s t = Inr (Some td)" and
    r: "paste_shell_target ar src mt s idx t =
             Inr (run_writes s
                    (List.map_filter
                       (\<lambda>(tid, sid).
                          map_option (\<lambda>xy. ((fst t, tid),
                                             moved_coord ar (mean_coord ar (map snd (sh_uv_data td)))
                                               (mean_coord ar (map snd (sh_uv_data src))) xy))
                                     (map_of (sh_uv_data src) sid))
                       (zip (sh_sorted_ids td) (sh_sorted_ids src))),
                  Inr n)"
    by (elim exE conjE) (rule that)
  let ?W = "List.map_filter
                       (\<lambda>(tid, sid).
                          map_option (\<lambda>xy. ((fst t, tid),
                                             moved_coord ar (mean_coord ar (map snd (sh_uv_data td)))
                                               (mean_coord ar (map snd (sh_uv_data src))) xy))
                                     (map_of (sh_uv_data src) sid))
                       (zip (sh_sorted_ids td) (sh_sorted_ids src))"
  have "\<forall>c \<in> fst ` set ?W. fst c = fst t"
  proof
    fix c assume "c \<in> fst ` set ?W"
    then obtain v where "(c, v) \<in> set ?W" by auto
    from map_filter_zip_mem [OF this] show "fst c = fst t" by auto
  qed
  with r show ?thesis by blast
qed

lemma example_faulty_selected:
  "get_selected_uv_shells example_faulty_scene [UV (''Q'', 0), UV (''R'', 0), UV (''T'', 0)]
     = Some [(''Q'', 0), (''R'', 0), (''T'', 0)]"
  "get_selected_uv_shells example_faulty_scene [UV (''U'', 0), UV (''Q'', 0)]
     = Some [(''U'', 0), (''Q'', 0)]"
  by (simp_all add: get_selected_uv_shells_def filterExpand_uv_def List.map_filter_simps
        example_faulty_fields)

text \<open>
  Claim C4 holds of the whole-mesh tool and, in the shell tool, of a target whose UV
  count differs or whose shell is empty. It fails, in the shell tool, for a target whose
  coordinates cannot be read. The clipboard is copied from shell \<open>P\<close>. In the batch
  \<open>Q, R, T\<close> the coordinate query of \<open>R.map[1]\<close> raises: the exception leaves
  \<^verbatim>\<open>paste_uv_shell\<close>, so there is no report, no failure entry for target 2, and target
  \<open>T\<close> is never attempted. In the batch \<open>U, Q\<close> no point of \<open>U\<close> returns coordinates:
  the centre computation divides by zero, and \<open>Q\<close> is never attempted.
\<close>

theorem batch_aborts_on_unreadable_target:
  "copy_uv_shell double_arith example_faulty_scene [UV (''P'', 0)] None
     = (Inr (Inr ()), Some example_faulty_clipboard) \<and>
   get_selected_uv_shells example_faulty_scene [UV (''Q'', 0), UV (''R'', 0), UV (''T'', 0)]
     = Some [(''Q'', 0), (''R'', 0), (''T'', 0)] \<and>
   uv_query example_faulty_scene (''R'', 1) = Raises \<and>
   paste_uv_shell double_arith (Some example_faulty_clipboard) True example_faulty_scene
       [UV (''Q'', 0), UV (''R'', 0), UV (''T'', 0)]
     = Inl HostError \<and>
   get_selected_uv_shells example_faulty_scene [UV (''U'', 0), UV (''Q'', 0)]
     = Some [(''U'', 0), (''Q'', 0)] \<and>
   map (uv_query example_faulty_scene) (border_shell example_faulty_scene (''U'', 0))
     = [Nothing, Nothing] \<and>
   paste_uv_shell double_arith (Some example_faulty_clipboard) True example_faulty_scene
       [UV (''U'', 0), UV (''Q'', 0)]
     = Inl ZeroDivisionError"
proof -
  let ?s = example_faulty_scene
  let ?d = example_faulty_clipboard
  have bq: "border_shell ?s (''Q'', 0) = [(''Q'', 0), (''Q'', 1)]"
    and bu: "border_shell ?s (''U'', 0) = [(''U'', 0), (''U'', 1)]"
    and br: "border_shell ?s (''R'', 0) = [(''R'', 0), (''R'', 1)]"
    by (simp_all add: example_faulty_fields)
  have rr: "uv_query ?s (''R'', 1) = Raises"
    by (simp add: example_faulty_fields)
  have ne: "border_shell ?s (''Q'', 0) \<noteq> []" unfolding bq by simp
  have nr: "\<forall>c \<in> set (border_shell ?s (''Q'', 0)). uv_query ?s c \<noteq> Raises"
    unfolding bq by (simp add: example_faulty_fields)
  have "usable_coords (uv_query ?s (''Q'', 0)) \<noteq> None"
    by (simp add: example_faulty_fields usable_coords_def)
  then have rd: "\<exists>c \<in> set (border_shell ?s (''Q'', 0)). usable_coords (uv_query ?s c) \<noteq> None"
    unfolding bq by simp
  have compat: "True \<longrightarrow> length (border_shell ?s (''Q'', 0)) = sh_uv_count ?d"
    unfolding bq by (simp add: example_faulty_data)
  from paste_target_writes_node [OF example_faulty_copy ne nr rd compat, of 1] obtain ws n where
    q: "paste_shell_target double_arith ?d True ?s 1 (''Q'', 0) = Inr (run_writes ?s ws, Inr n)" and
    ws: "\<forall>c \<in> fst ` set ws. fst c = fst (''Q'', 0 :: nat)"
    by (elim exE conjE) (rule that)
  have "(''R'', 1) \<notin> fst ` set ws"
    using ws by auto
  then have "uv_query (run_writes ?s ws) (''R'', 1) = uv_query ?s (''R'', 1)"
    by (rule uv_query_run_writes_other)
  then have "uv_query (run_writes ?s ws) (''R'', 1) = Raises"
    unfolding rr .
  moreover have "border_shell (run_writes ?s ws) (''R'', 0) = [(''R'', 0), (''R'', 1)]"
    by (simp add: run_writes_static br)
  ultimately have "\<exists>c \<in> set (border_shell (run_writes ?s ws) (''R'', 0)).
                     uv_query (run_writes ?s ws) c = Raises"
    by simp
  then have r: "paste_shell_target double_arith ?d True (run_writes ?s ws) 2 (''R'', 0) = Inl HostError"
    by (rule paste_target_raises)
  have one: "paste_uv_shell double_arith (Some ?d) True ?s [UV (''Q'', 0), UV (''R'', 0), UV (''T'', 0)]
               = Inl HostError"
    using q r by (simp add: paste_uv_shell_def example_faulty_selected numeral_2_eq_2)
  have un: "\<forall>c \<in> set (border_shell ?s (''U'', 0)).
              uv_query ?s c \<noteq> Raises \<and> usable_coords (uv_query ?s c) = None"
    unfolding bu by (simp add: example_faulty_fields usable_coords_def)
  have une: "border_shell ?s (''U'', 0) \<noteq> []" unfolding bu by simp
  have ucompat: "True \<longrightarrow> length (border_shell ?s (''U'', 0)) = sh_uv_count ?d"
    unfolding bu by (simp add: example_faulty_data)
  have u: "paste_shell_target double_arith ?d True ?s 1 (''U'', 0) = Inl ZeroDivisionError"
    by (rule paste_target_unread [OF une un ucompat])
  have two: "paste_uv_shell double_arith (Some ?d) True ?s [UV (''U'', 0), UV (''Q'', 0)]
               = Inl ZeroDivisionError"
    using u by (simp add: paste_uv_shell_def example_faulty_selected)
  have qs: "map (uv_query ?s) (border_shell ?s (''U'', 0)) = [Nothing, Nothing]"
    unfolding bu by (simp add: example_faulty_fields)
  show ?thesis
    by (intro conjI)
       (rule example_faulty_copy, rule example_faulty_selected(1), rule rr, rule one,
        rule example_faulty_selected(2), rule qs, rule two)
qed

section \<open>Shell extraction\<close>

lemma collect_uv_shells_seeds:
  "collect_uv_shells s uvs (acc, P) =
     (acc @ map (\<lambda>u. hd (border_shell s u)) (shell_seeds s (filter (\<lambda>v. v \<notin> P) uvs)),
      P \<union> \<Union> (set ` set (map (border_shell s) (shell_seeds s (filter (\<lambda>v. v \<notin> P) uvs)))))"
proof (induction uvs arbitrary: acc P)
  case Nil
  then show ?case by simp
next
  case (Cons u us)
  note IH = Cons.IH
  show ?case
  proof (cases "u \<in> P")
    case True
    then show ?thesis by (simp add: IH)
  next
    case False
    show ?thesis
    proof (cases "border_shell s u = []")
      case True
      with False show ?thesis by (simp add: IH)
    next
      case ne: False
      then obtain first others where sh: "border_shell s u = first # others"
        by (cases "border_shell s u") auto
      have f: "filter (\<lambda>v. v \<notin> set (border_shell s u)) (filter (\<lambda>v. v \<notin> P) us)
                 = filter (\<lambda>v. v \<notin> P \<union> set (first # others)) us"
        unfolding filter_filter sh by (rule filter_cong) auto
      have "collect_uv_shells s (u # us) (acc, P)
              = collect_uv_shells s us (acc @ [first], P \<union> set (first # others))"
        using False sh by simp
      also note IH [of "acc @ [first]" "P \<union> set (first # others)"]
      finally show ?thesis
        using False ne f sh by (simp add: Un_assoc)
    qed
  qed
qed

lemma shell_seeds_subseq: "subseq (shell_seeds s uvs) uvs"
proof (induction s uvs rule: shell_seeds.induct)
  case (1 s)
  then show ?case by simp
next
  case (2 s u us)
  show ?case
  proof (cases "border_shell s u = []")
    case True
    with 2 show ?thesis by (auto intro: list_emb_Cons)
  next
    case False
    with 2 have "subseq (shell_seeds s (filter (\<lambda>v. v \<notin> set (border_shell s u)) us))
                   (filter (\<lambda>v. v \<notin> set (border_shell s u)) us)"
      by simp
    then have "subseq (shell_seeds s (filter (\<lambda>v. v \<notin> set (border_shell s u)) us)) us"
      by (rule subseq_order.trans) simp
    with False show ?thesis by simp
  qed
qed

lemma shell_seeds_subset: "x \<in> set (shell_seeds s uvs) \<Longrightarrow> x \<in> set uvs"
  using shell_seeds_subseq [of s uvs] by (metis subseq_singleton_left subseq_order.trans)

lemma shell_seeds_separate:
  "sorted_wrt (\<lambda>x y. y \<notin> set (border_shell s x)) (shell_seeds s uvs)"
proof (induction s uvs rule: shell_seeds.induct)
  case (1 s)
  then show ?case by simp
next
  case (2 s u us)
  let ?F = "filter (\<lambda>v. v \<notin> set (border_shell s u)) us"
  show ?case
  proof (cases "border_shell s u = []")
    case True
    then have "shell_seeds s (u # us) = shell_seeds s us" by simp
    with 2(1) [OF True] show ?thesis by (simp only:)
  next
    case False
    then have seeds: "shell_seeds s (u # us) = u # shell_seeds s ?F" by simp
    have B: "\<forall>y \<in> set (shell_seeds s ?F). y \<notin> set (border_shell s u)"
    proof
      fix y assume "y \<in> set (shell_seeds s ?F)"
      then have "y \<in> set ?F" by (rule shell_seeds_subset)
      then show "y \<notin> set (border_shell s u)" by simp
    qed
    show ?thesis
      unfolding seeds sorted_wrt.simps using B 2(2) [OF False] by (rule conjI)
  qed
qed

lemma shell_seeds_cover:
  "\<forall>u \<in> set uvs. u \<in> set (border_shell s u) \<Longrightarrow> u \<in> set uvs \<Longrightarrow>
     \<exists>x \<in> set (shell_seeds s uvs). u \<in> set (border_shell s x)"
proof (induction s uvs rule: shell_seeds.induct)
  case (1 s)
  then show ?case by simp
next
  case (2 s v us)
  let ?F = "filter (\<lambda>w. w \<notin> set (border_shell s v)) us"
  from 2(3) have vv: "v \<in> set (border_shell s v)" by simp
  then have ne: "border_shell s v \<noteq> []" by auto
  have seeds: "shell_seeds s (v # us) = v # shell_seeds s ?F" by (simp add: ne)
  show ?case
  proof (cases "u \<in> set (border_shell s v)")
    case True
    then show ?thesis unfolding seeds by simp
  next
    case False
    with 2(4) vv have "u \<in> set us" by auto
    with False have uF: "u \<in> set ?F" by simp
    have A: "\<forall>w \<in> set ?F. w \<in> set (border_shell s w)"
      using 2(3) by simp
    from 2(2) [OF ne A uF] show ?thesis unfolding seeds by simp
  qed
qed

lemma shell_seeds_first:
  assumes A1: "\<forall>u \<in> set uvs. u \<in> set (border_shell s u)"
      and A2: "\<forall>u \<in> set uvs. \<forall>d \<in> set (border_shell s u). set (border_shell s d) = set (border_shell s u)"
      and x: "x \<in> set (shell_seeds s uvs)"
      and split: "uvs = pre @ x # post" "x \<notin> set pre"
  shows "\<forall>v \<in> set pre. x \<notin> set (border_shell s v)"
  using assms
proof (induction s uvs arbitrary: pre post rule: shell_seeds.induct)
  case (1 s)
  then show ?case by simp
next
  case (2 s u us)
  let ?F = "filter (\<lambda>w. w \<notin> set (border_shell s u)) us"
  from 2(3) have uu: "u \<in> set (border_shell s u)" by simp
  then have ne: "border_shell s u \<noteq> []" by auto
  have seeds: "shell_seeds s (u # us) = u # shell_seeds s ?F" by (simp add: ne)
  show ?case
  proof (cases pre)
    case Nil
    then show ?thesis by simp
  next
    case (Cons p pre')
    from 2(6) have pu: "p = u" and us: "us = pre' @ x # post"
      unfolding Cons by simp_all
    from 2(7) have xu: "x \<noteq> u" and xp: "x \<notin> set pre'"
      unfolding Cons pu by simp_all
    from 2(5) xu have xF: "x \<in> set (shell_seeds s ?F)"
      unfolding seeds by simp
    then have "x \<in> set ?F" by (rule shell_seeds_subset)
    then have xs: "x \<notin> set (border_shell s u)" by simp
    have F: "?F = filter (\<lambda>w. w \<notin> set (border_shell s u)) pre' @ x
                   # filter (\<lambda>w. w \<notin> set (border_shell s u)) post"
      unfolding us using xs by simp
    have A1': "\<forall>w \<in> set ?F. w \<in> set (border_shell s w)" using 2(3) by simp
    have "set ?F \<subseteq> set (u # us)" by auto
    with 2(4) have A2': "\<forall>w \<in> set ?F. \<forall>d \<in> set (border_shell s w). set (border_shell s d) = set (border_shell s w)"
      by blast
    have xp': "x \<notin> set (filter (\<lambda>w. w \<notin> set (border_shell s u)) pre')" using xp by simp
    have IH: "\<forall>v \<in> set (filter (\<lambda>w. w \<notin> set (border_shell s u)) pre'). x \<notin> set (border_shell s v)"
      by (rule 2(2) [OF ne A1' A2' xF F xp'])
    have "u \<in> set (u # us)" by simp
    with 2(4) have A2u: "\<forall>d \<in> set (border_shell s u). set (border_shell s d) = set (border_shell s u)"
      by blast
    have "\<forall>v \<in> set pre'. x \<notin> set (border_shell s v)"
    proof
      fix v assume v: "v \<in> set pre'"
      show "x \<notin> set (border_shell s v)"
      proof (cases "v \<in> set (border_shell s u)")
        case True
        with A2u have "set (border_shell s v) = set (border_shell s u)" by blast
        with xs show ?thesis by simp
      next
        case False
        with v have "v \<in> set (filter (\<lambda>w. w \<notin> set (border_shell s u)) pre')" by simp
        with IH show ?thesis by blast
      qed
    qed
    with xs have "\<forall>v \<in> set (u # pre'). x \<notin> set (border_shell s v)" by simp
    then show ?thesis unfolding Cons pu .
  qed
qed

lemma sorted_wrt_either:
  "sorted_wrt P xs \<Longrightarrow> x \<in> set xs \<Longrightarrow> y \<in> set xs \<Longrightarrow> x \<noteq> y \<Longrightarrow> P x y \<or> P y x"
  by (induction xs) auto

lemma shell_seeds_unique:
  assumes A1: "\<forall>u \<in> set uvs. u \<in> set (border_shell s u)"
      and A2: "\<forall>u \<in> set uvs. \<forall>d \<in> set (border_shell s u). set (border_shell s d) = set (border_shell s u)"
      and x: "x \<in> set (shell_seeds s uvs)" "u \<in> set (border_shell s x)"
      and y: "y \<in> set (shell_seeds s uvs)" "u \<in> set (border_shell s y)"
  shows "x = y"
proof (rule ccontr)
  assume neq: "x \<noteq> y"
  from x(1) y(1) have xin: "x \<in> set uvs" and yin: "y \<in> set uvs"
    by (auto dest: shell_seeds_subset)
  from A2 xin x(2) have "set (border_shell s u) = set (border_shell s x)" by blast
  moreover from A2 yin y(2) have "set (border_shell s u) = set (border_shell s y)" by blast
  ultimately have eq: "set (border_shell s x) = set (border_shell s y)" by simp
  from A1 xin yin have "x \<in> set (border_shell s x)" "y \<in> set (border_shell s y)" by auto
  with eq have xy: "x \<in> set (border_shell s y)" and yx: "y \<in> set (border_shell s x)" by auto
  from sorted_wrt_either [OF shell_seeds_separate x(1) y(1) neq]
  have "y \<notin> set (border_shell s x) \<or> x \<notin> set (border_shell s y)" .
  with xy yx show False by blast
qed

lemma get_selected_uv_shells_seeds:
  "get_selected_uv_shells s sel =
     (if map (\<lambda>u. hd (border_shell s u)) (shell_seeds s (filterExpand_uv sel)) = [] then None
      else Some (map (\<lambda>u. hd (border_shell s u)) (shell_seeds s (filterExpand_uv sel))))"
proof (cases "sel = []")
  case True
  then show ?thesis
    by (simp add: get_selected_uv_shells_def filterExpand_uv_def)
next
  case False
  show ?thesis
  proof (cases "filterExpand_uv sel")
    case Nil
    with False show ?thesis by (simp add: get_selected_uv_shells_def)
  next
    case (Cons c cs)
    have "fst (collect_uv_shells s (c # cs) ([], {}))
            = map (\<lambda>u. hd (border_shell s u)) (shell_seeds s (c # cs))"
      unfolding collect_uv_shells_seeds by simp
    then show ?thesis
      using False unfolding get_selected_uv_shells_def Cons
      by (simp split: list.splits)
  qed
qed

lemma nothing_selected:
  assumes "filterExpand_uv sel = []"
  shows "get_selected_uv_shells s sel = None"
    and "copy_uv_shell ar s sel clipboard = (Inr (Inl SelectUVFirst), clipboard)"
    and "paste_uv_shell ar (Some d) mt s sel = Inr (s, Inl SelectTargetFirst)"
proof -
  show n: "get_selected_uv_shells s sel = None"
    using assms by (simp add: get_selected_uv_shells_def)
  show "copy_uv_shell ar s sel clipboard = (Inr (Inl SelectUVFirst), clipboard)"
    by (simp add: copy_uv_shell_def n)
  show "paste_uv_shell ar (Some d) mt s sel = Inr (s, Inl SelectTargetFirst)"
    by (simp add: paste_uv_shell_def n)
qed

lemma example_seeds:
  "filterExpand_uv [UV (''Q'', 1), UV (''P'', 0), NonUV ''pCube1.vtx[3]'', UV (''Q'', 0), UV (''P'', 1)]
     = [(''Q'', 1), (''P'', 0), (''Q'', 0), (''P'', 1)]"
  "shell_seeds example_shell_scene [(''Q'', 1), (''P'', 0), (''Q'', 0), (''P'', 1)]
     = [(''Q'', 1), (''P'', 0)]"
  "filterExpand_uv [NonUV ''pCube1.f[2]''] = []"
  by code_simp+

text \<open>
  Claim C9. Provided the host's region expansion returns, for every selected UV point,
  a region that contains the point and is the same for every point in it: the shells
  returned are those of the points that are first of their region in the selection, in
  that order; every selected point lies in the region of exactly one of them, so a
  selection over several regions gives one shell per region, none merged and none twice;
  and a selection without UV components gives no shells, on which copy and paste stop
  with the warning to select UVs and change nothing.
\<close>

theorem shell_extraction:
  assumes A1: "\<forall>u \<in> set (filterExpand_uv sel). u \<in> set (border_shell s u)"
      and A2: "\<forall>u \<in> set (filterExpand_uv sel). \<forall>d \<in> set (border_shell s u).
                 set (border_shell s d) = set (border_shell s u)"
  shows "(let uvs = filterExpand_uv sel;
              seeds = shell_seeds s uvs;
              shells = map (\<lambda>u. hd (border_shell s u)) seeds
          in get_selected_uv_shells s sel = (if shells = [] then None else Some shells) \<and>
             subseq seeds uvs \<and>
             (\<forall>u \<in> set uvs. \<exists>!x. x \<in> set seeds \<and> u \<in> set (border_shell s x)) \<and>
             (\<forall>x \<in> set seeds. set (border_shell s (hd (border_shell s x))) = set (border_shell s x)) \<and>
             (\<forall>x \<in> set seeds. \<forall>pre post. uvs = pre @ x # post \<and> x \<notin> set pre \<longrightarrow>
                  (\<forall>v \<in> set pre. x \<notin> set (border_shell s v))) \<and>
             (uvs = [] \<longrightarrow>
                get_selected_uv_shells s sel = None \<and>
                copy_uv_shell ar s sel clipboard = (Inr (Inl SelectUVFirst), clipboard) \<and>
                paste_uv_shell ar (Some d) mt s sel = Inr (s, Inl SelectTargetFirst)))"
proof -
  let ?uvs = "filterExpand_uv sel"
  let ?seeds = "shell_seeds s ?uvs"
  let ?shells = "map (\<lambda>u. hd (border_shell s u)) ?seeds"
  have c1: "get_selected_uv_shells s sel = (if ?shells = [] then None else Some ?shells)"
    by (rule get_selected_uv_shells_seeds)
  have c2: "subseq ?seeds ?uvs" by (rule shell_seeds_subseq)
  have c3: "\<forall>u \<in> set ?uvs. \<exists>!x. x \<in> set ?seeds \<and> u \<in> set (border_shell s x)"
  proof
    fix u assume u: "u \<in> set ?uvs"
    from shell_seeds_cover [OF A1 u] obtain x where
      x: "x \<in> set ?seeds" "u \<in> set (border_shell s x)" by blast
    show "\<exists>!x. x \<in> set ?seeds \<and> u \<in> set (border_shell s x)"
    proof (rule ex1I [of _ x])
      show "x \<in> set ?seeds \<and> u \<in> set (border_shell s x)" using x by blast
    next
      fix y assume "y \<in> set ?seeds \<and> u \<in> set (border_shell s y)"
      then have y: "y \<in> set ?seeds" "u \<in> set (border_shell s y)" by blast+
      show "y = x" by (rule shell_seeds_unique [OF A1 A2 y x])
    qed
  qed
  have c4: "\<forall>x \<in> set ?seeds. set (border_shell s (hd (border_shell s x))) = set (border_shell s x)"
  proof
    fix x assume "x \<in> set ?seeds"
    then have xin: "x \<in> set ?uvs" by (rule shell_seeds_subset)
    with A1 have "x \<in> set (border_shell s x)" by blast
    then have "border_shell s x \<noteq> []" by auto
    then have "hd (border_shell s x) \<in> set (border_shell s x)" by (rule hd_in_set)
    with A2 xin show "set (border_shell s (hd (border_shell s x))) = set (border_shell s x)"
      by blast
  qed
  have c5: "\<forall>x \<in> set ?seeds. \<forall>pre post. ?uvs = pre @ x # post \<and> x \<notin> set pre \<longrightarrow>
                  (\<forall>v \<in> set pre. x \<notin> set (border_shell s v))"
  proof (intro ballI allI impI)
    fix x pre post v
    assume x: "x \<in> set ?seeds" and sp: "?uvs = pre @ x # post \<and> x \<notin> set pre"
      and v: "v \<in> set pre"
    from sp have sp1: "?uvs = pre @ x # post" and sp2: "x \<notin> set pre" by blast+
    from shell_seeds_first [OF A1 A2 x sp1 sp2] v
    show "x \<notin> set (border_shell s v)" by blast
  qed
  have c6: "?uvs = [] \<longrightarrow>
                get_selected_uv_shells s sel = None \<and>
                copy_uv_shell ar s sel clipboard = (Inr (Inl SelectUVFirst), clipboard) \<and>
                paste_uv_shell ar (Some d) mt s sel = Inr (s, Inl SelectTargetFirst)"
  proof
    assume e: "?uvs = []"
    from nothing_selected [OF e]
    show "get_selected_uv_shells s sel = None \<and>
          copy_uv_shell ar s sel clipboard = (Inr (Inl SelectUVFirst), clipboard) \<and>
          paste_uv_shell ar (Some d) mt s sel = Inr (s, Inl SelectTargetFirst)"
      by blast
  qed
  show ?thesis
    unfolding Let_def using c1 c2 c3 c4 c5 c6 by (intro conjI)
qed

theorem shell_extraction_witness:
  "list_all (\<lambda>u. u \<in> set (border_shell example_shell_scene u))
     (filterExpand_uv [UV (''Q'', 1), UV (''P'', 0), NonUV ''pCube1.vtx[3]'',
                       UV (''Q'', 0), UV (''P'', 1)]) \<and>
   list_all (\<lambda>u. list_all (\<lambda>d. set (border_shell example_shell_scene d)
                                     = set (border_shell example_shell_scene u))
                      (border_shell example_shell_scene u))
     (filterExpand_uv [UV (''Q'', 1), UV (''P'', 0), NonUV ''pCube1.vtx[3]'',
                       UV (''Q'', 0), UV (''P'', 1)]) \<and>
   get_selected_uv_shells example_shell_scene
     [UV (''Q'', 1), UV (''P'', 0), NonUV ''pCube1.vtx[3]'', UV (''Q'', 0), UV (''P'', 1)]
     = Some [(''Q'', 0), (''P'', 0)] \<and>
   filterExpand_uv [NonUV ''pCube1.f[2]''] = [] \<and>
   copy_uv_shell double_arith example_shell_scene [NonUV ''pCube1.f[2]''] None = (Inr (Inl SelectUVFirst), None)"
proof -
  let ?sel = "[UV (''Q'', 1), UV (''P'', 0), NonUV ''pCube1.vtx[3]'', UV (''Q'', 0), UV (''P'', 1)]"
  have b: "border_shell example_shell_scene =
      (\<lambda>c. if fst c = ''P'' then [(''P'', 0), (''P'', 1)]
           else if fst c = ''Q'' then [(''Q'', 0), (''Q'', 1)]
           else if fst c = ''R'' then [(''R'', 0), (''R'', 1), (''R'', 2)]
           else if fst c = ''T'' then [(''T'', 0), (''T'', 1)]
           else [])"
    by (simp add: example_shell_scene_def)
  have h1: "\<forall>u \<in> set (filterExpand_uv ?sel). u \<in> set (border_shell example_shell_scene u)"
    unfolding example_seeds b by simp
  have h2: "\<forall>u \<in> set (filterExpand_uv ?sel). \<forall>d \<in> set (border_shell example_shell_scene u).
        set (border_shell example_shell_scene d) = set (border_shell example_shell_scene u)"
    unfolding example_seeds b by simp
  have h3: "\<forall>u \<in> set (filterExpand_uv [NonUV ''pCube1.f[2]'']). u \<in> set (border_shell example_shell_scene u)"
    unfolding example_seeds by simp
  have h4: "\<forall>u \<in> set (filterExpand_uv [NonUV ''pCube1.f[2]'']). \<forall>d \<in> set (border_shell example_shell_scene u).
        set (border_shell example_shell_scene d) = set (border_shell example_shell_scene u)"
    unfolding example_seeds by simp
  from shell_extraction [OF h1 h2, where ar = double_arith and clipboard = None
      and d = example_shell_clipboard and mt = True]
  have "get_selected_uv_shells example_shell_scene ?sel = Some [(''Q'', 0), (''P'', 0)]"
    unfolding Let_def example_seeds by (simp add: b)
  moreover from shell_extraction [OF h3 h4, where ar = double_arith and clipboard = None
      and d = example_shell_clipboard and mt = True]
  have "copy_uv_shell double_arith example_shell_scene [NonUV ''pCube1.f[2]''] None = (Inr (Inl SelectUVFirst), None)"
    unfolding Let_def example_seeds by simp
  ultimately show ?thesis
    using h1 h2 example_seeds(3) unfolding list_all_iff by blast
qed

section \<open>Nearest-point snap\<close>

lemma nearest_target_step:
  "nearest_target ar uv (target # rest) best =
     (if (case best of None \<Rightarrow> True | Some (min_dist, nearest_point) \<Rightarrow> float_dist ar uv target < min_dist)
      then nearest_target ar uv rest (Some (float_dist ar uv target, target))
      else nearest_target ar uv rest best)"
  by (cases best) (auto simp: float_dist_def Let_def)

lemma float_dist_double:
  "float_dist double_arith (u, v) (tu, tv) =
     round_double (sqrt (round_double (round_double ((round_double (u - tu))\<^sup>2)
                                        + round_double ((round_double (v - tv))\<^sup>2))))"
  by (simp add: float_dist_def double_arith_def)

lemma example_distances:
  "float_dist double_arith (0, 0) (1 / 256, 0) = 1 / 256"
  "1 / 2 \<le> float_dist double_arith (0, 0) (1 / 2, 1 / 2)"
  "float_dist double_arith (0, 0) (1 / 2 ^ 60, 1 / 16) = 1 / 16"
proof -
  have r0: "round_double (0 - 0) = 0" "round_double (0\<^sup>2) = 0" by simp_all
  have a1: "round_double (0 - 1 / 256) = - (1 / 256)"
    using round_double_exact [of "- (1 / 256)" "- (2 ^ 52)" "- 60"] by simp
  have a2: "round_double ((- (1 / 256))\<^sup>2) = 1 / 65536"
    using round_double_exact [of "1 / 65536" "2 ^ 52" "- 68"] by (simp add: power2_eq_square)
  have a3: "round_double (1 / 65536 + 0) = 1 / 65536"
    using round_double_exact [of "1 / 65536" "2 ^ 52" "- 68"] by simp
  have a4: "sqrt (1 / 65536) = 1 / 256"
    by (rule real_sqrt_unique) (simp_all add: power2_eq_square)
  have a5: "round_double (1 / 256) = 1 / 256"
    using round_double_exact [of "1 / 256" "2 ^ 52" "- 60"] by simp
  show "float_dist double_arith (0, 0) (1 / 256, 0) = 1 / 256"
    unfolding float_dist_double r0 a1 a2 a3 a4 a5 ..
  have b1: "round_double (0 - 1 / 2) = - (1 / 2)"
    using round_double_exact [of "- (1 / 2)" "- (2 ^ 52)" "- 53"] by simp
  have b2: "round_double ((- (1 / 2))\<^sup>2) = 1 / 4"
    using round_double_exact [of "1 / 4" "2 ^ 52" "- 54"] by (simp add: power2_eq_square)
  have b3: "round_double (1 / 4 + 1 / 4) = 1 / 2"
    using round_double_exact [of "1 / 2" "2 ^ 52" "- 53"] by simp
  have "(1 / 2 :: real)\<^sup>2 \<le> 1 / 2" by (simp add: power2_eq_square)
  then have "1 / 2 \<le> sqrt (1 / 2)" by (rule real_le_rsqrt)
  then have "2 powi (- 1) \<le> sqrt (1 / 2)" by (simp add: power_int_minus)
  from round_double_ge [OF this] have b4: "1 / 2 \<le> round_double (sqrt (1 / 2))"
    by (simp add: power_int_minus)
  then show "1 / 2 \<le> float_dist double_arith (0, 0) (1 / 2, 1 / 2)"
    unfolding float_dist_double b1 b2 b3 .
  have c1: "round_double (0 - 1 / 2 ^ 60) = - (1 / 2 ^ 60)"
    using round_double_exact [of "- (1 / 2 ^ 60)" "- (2 ^ 52)" "- 112"] by simp
  have c2: "round_double ((- (1 / 2 ^ 60))\<^sup>2) = 1 / 2 ^ 120"
    using round_double_exact [of "1 / 2 ^ 120" "2 ^ 52" "- 172"] by (simp add: power2_eq_square)
  have c3: "round_double (0 - 1 / 16) = - (1 / 16)"
    using round_double_exact [of "- (1 / 16)" "- (2 ^ 52)" "- 56"] by simp
  have c4: "round_double ((- (1 / 16))\<^sup>2) = 1 / 256"
    using round_double_exact [of "1 / 256" "2 ^ 52" "- 60"] by (simp add: power2_eq_square)
  have c5: "round_double (1 / 2 ^ 120 + 1 / 256) = 1 / 256"
    using round_double_normal [of "1 / 2 ^ 120 + 1 / 256" "2 ^ 52" "1 / 2 ^ 60" "- 60"]
    by (simp add: power_int_minus field_simps)
  have c6: "sqrt (1 / 256) = 1 / 16"
    by (rule real_sqrt_unique) (simp_all add: power2_eq_square)
  have c7: "round_double (1 / 16) = 1 / 16"
    using round_double_exact [of "1 / 16" "2 ^ 52" "- 56"] by simp
  show "float_dist double_arith (0, 0) (1 / 2 ^ 60, 1 / 16) = 1 / 16"
    unfolding float_dist_double c1 c2 c3 c4 c5 c6 c7 ..
qed


lemma example_nearest:
  "nearest_target double_arith (0, 0) [(1 / 256, 0), (1 / 2, 1 / 2)] None
     = Some (1 / 256, (1 / 256, 0))"
proof -
  have "\<not> float_dist double_arith (0, 0) (1 / 2, 1 / 2) < 1 / 256"
    using example_distances(2) by simp
  then show ?thesis
    by (simp only: nearest_target_step nearest_target.simps(1) example_distances(1)
          option.case prod.case if_True if_False)
qed





lemma snap_sources_near:
  "uv \<notin> set T \<Longrightarrow> uv_query s uv = Coords c \<Longrightarrow> nearest_target ar c tps None = Some (d, p) \<Longrightarrow>
   d \<le> thr \<Longrightarrow> uv_writable s uv \<Longrightarrow>
     snap_sources ar thr T tps (uv # rest) (s, ev)
       = snap_sources ar thr T tps rest (run_writes s [(uv, p)], ev @ [Snapped uv p d])"
  by (simp add: query_pair_def polyEditUV_set_def Let_def run_writes_def)

lemma snap_sources_far:
  "uv \<notin> set T \<Longrightarrow> uv_query s uv = Coords c \<Longrightarrow> nearest_target ar c tps None = Some (d, p) \<Longrightarrow>
   \<not> d \<le> thr \<Longrightarrow>
     snap_sources ar thr T tps (uv # rest) (s, ev)
       = snap_sources ar thr T tps rest (s, ev @ [TooFar uv d])"
  by (simp add: query_pair_def)

lemma snap_sources_writes:
  "snap_sources ar thr T tps srcs (s, ev) = Inr (s', ev') \<Longrightarrow>
     \<exists>ws. s' = run_writes s ws \<and> fst ` set ws \<subseteq> set srcs - set T"
proof (induction srcs arbitrary: s ev)
  case Nil
  then have "s' = run_writes s []" by simp
  then show ?case by (intro exI [of _ "[]"]) simp
next
  case (Cons uv rest)
  have step: "\<exists>ws. s' = run_writes s ws \<and> fst ` set ws \<subseteq> set (uv # rest) - set T"
    if "snap_sources ar thr T tps rest (s, ev1) = Inr (s', ev')" for ev1
  proof -
    from Cons.IH [OF that] obtain ws where "s' = run_writes s ws" "fst ` set ws \<subseteq> set rest - set T"
      by blast
    then show ?thesis by (intro exI [of _ ws]) auto
  qed
  show ?case
  proof (cases "uv \<in> set T")
    case True
    with Cons.prems have "snap_sources ar thr T tps rest (s, ev) = Inr (s', ev')" by simp
    then show ?thesis by (rule step)
  next
    case notT: False
    show ?thesis
    proof (cases "uv_query s uv")
      case (Coords c)
      then have q: "query_pair s uv = Inr c" by (simp add: query_pair_def)
      show ?thesis
      proof (cases "nearest_target ar c tps None")
        case None
        with Cons.prems notT q have "snap_sources ar thr T tps rest (s, ev) = Inr (s', ev')" by simp
        then show ?thesis by (rule step)
      next
        case (Some dp)
        obtain d p where dp: "dp = (d, p)" by (cases dp)
        note n = Some [unfolded dp]
        show ?thesis
        proof (cases "d \<le> thr")
          case far: False
          from Cons.prems have "snap_sources ar thr T tps rest (s, ev @ [TooFar uv d]) = Inr (s', ev')"
            unfolding snap_sources_far [OF notT Coords n far] .
          then show ?thesis by (rule step)
        next
          case near: True
          show ?thesis
          proof (cases "uv_writable s uv")
            case False
            with Cons.prems notT q n near show ?thesis
              by (simp add: polyEditUV_set_def Let_def)
          next
            case True
            from Cons.prems have "snap_sources ar thr T tps rest
                (run_writes s [(uv, p)], ev @ [Snapped uv p d]) = Inr (s', ev')"
              unfolding snap_sources_near [OF notT Coords n near True] .
            from Cons.IH [OF this] obtain ws where
              ws: "s' = run_writes (run_writes s [(uv, p)]) ws" "fst ` set ws \<subseteq> set rest - set T"
              by blast
            have "s' = run_writes s ((uv, p) # ws)"
              using ws(1) run_writes_append [of s "[(uv, p)]" ws] by simp
            moreover have "fst ` set ((uv, p) # ws) \<subseteq> set (uv # rest) - set T"
              using ws(2) notT by auto
            ultimately show ?thesis by blast
          qed
        qed
      qed
    next
      case Nothing
      with Cons.prems notT show ?thesis by (simp add: query_pair_def)
    next
      case Short
      with Cons.prems notT show ?thesis by (simp add: query_pair_def)
    next
      case (Long c)
      with Cons.prems notT show ?thesis by (simp add: query_pair_def)
    next
      case Raises
      with Cons.prems notT show ?thesis by (simp add: query_pair_def)
    qed
  qed
qed



lemma snap_passes_guards:
  assumes src: "filter (\<lambda>uv. uv \<noteq> target_uv) selected_uvs = first_source # more_sources"
      and len: "2 \<le> length selected_uvs"
      and tne: "border_shell s target_uv \<noteq> []"
      and disj: "set (border_shell s target_uv) \<inter> set (border_shell s first_source) = {}"
  shows "snap_uv_to_nearest ar thr s selected_uvs (SelectTgl (Some target_uv)) =
     (case collect_target_points s (border_shell s target_uv) of
        Inl e \<Rightarrow> Inl e
      | Inr target_points \<Rightarrow>
          (case snap_sources ar thr (border_shell s target_uv) target_points
                  (first_source # more_sources) (s, []) of
             Inl e \<Rightarrow> Inl e
           | Inr (s', events) \<Rightarrow> Inr (s', Finished events)))"
proof -
  from len have "selected_uvs \<noteq> []" "\<not> length selected_uvs < 2" by auto
  then show ?thesis
    unfolding snap_uv_to_nearest_def by (simp add: src tne disj Let_def)
qed

lemma example_snap_fields:
  "border_shell example_snap_scene =
     (\<lambda>c. if c = (''S'', 0) then [(''S'', 0)]
          else if c = (''S'', 5) \<or> c = (''S'', 6) then [(''S'', 5), (''S'', 6)]
          else [])"
  "uv_query example_snap_scene =
     (\<lambda>c. if c = (''S'', 0) then Coords (0, 0)
          else if c = (''S'', 5) then Coords (1 / 256, 0)
          else Coords (1 / 2, 1 / 2))"
  "uv_writable example_snap_scene = (\<lambda>c. True)"
  "edit_calls example_snap_scene = []"
  by (simp_all add: example_snap_scene_def)


text \<open>
  Claim C7, as stated, fails: the sources are \<open>S.map[0]\<close> and \<open>S.map[6]\<close>, the target
  shell is \<open>{S.map[5], S.map[6]}\<close>, so \<open>S.map[6]\<close> is a source point and a target point
  at once; the call is not rejected, and the source point \<open>S.map[0]\<close> is moved from
  \<open>(0, 0)\<close> to \<open>(1/256, 0)\<close>.
\<close>

theorem disjointness_counterexample:
  "(''S'', 6) \<in> set (filter (\<lambda>uv. uv \<noteq> (''S'', 5)) [(''S'', 0 :: nat), (''S'', 6), (''S'', 5)]) \<and>
   (''S'', 6) \<in> set (border_shell example_snap_scene (''S'', 5)) \<and>
   snap_view (''S'', 0)
     (snap_uv_to_nearest double_arith (1 / 128) example_snap_scene [(''S'', 0), (''S'', 6), (''S'', 5)]
        (SelectTgl (Some (''S'', 5))))
     = Some (Coords (1 / 256, 0), [((''S'', 0), (1 / 256, 0))],
             Finished [Snapped (''S'', 0) (1 / 256, 0) (1 / 256)]) \<and>
   uv_query example_snap_scene (''S'', 0) = Coords (0, 0)"
  by (simp add: snap_view_def snap_uv_to_nearest_def example_snap_scene_def query_pair_def
        example_nearest polyEditUV_set_def Let_def del: nearest_target.simps)

text \<open>
  Claim C7, amended. When the UV shell of the first source point shares a point with the
  target shell, the whole call is rejected with a warning before any coordinate write,
  and the scene is as it was. In every call that returns, no point of the target shell is
  written: a source point that belongs to the target shell is skipped, and every write
  goes to a selected point other than the target point and outside the target shell.
\<close>

theorem snap_first_shell_guard:
  assumes src: "filter (\<lambda>uv. uv \<noteq> target_uv) selected_uvs = first_source # more_sources"
      and len: "2 \<le> length selected_uvs"
  shows "(set (border_shell s target_uv) \<inter> set (border_shell s first_source) \<noteq> {} \<longrightarrow>
            snap_uv_to_nearest ar thr s selected_uvs (SelectTgl (Some target_uv))
              = Inr (s, Warned (SharedPoints
                  (card (set (border_shell s target_uv) \<inter> set (border_shell s first_source)))))) \<and>
         (\<forall>s' out. snap_uv_to_nearest ar thr s selected_uvs (SelectTgl (Some target_uv)) = Inr (s', out) \<longrightarrow>
            (\<forall>c \<in> set (border_shell s target_uv). uv_query s' c = uv_query s c) \<and>
            (\<forall>c \<in> fst ` set (drop (length (edit_calls s)) (edit_calls s')).
               c \<in> set selected_uvs \<and> c \<noteq> target_uv \<and> c \<notin> set (border_shell s target_uv)))"
proof (rule conjI)
  show "set (border_shell s target_uv) \<inter> set (border_shell s first_source) \<noteq> {} \<longrightarrow>
            snap_uv_to_nearest ar thr s selected_uvs (SelectTgl (Some target_uv))
              = Inr (s, Warned (SharedPoints
                  (card (set (border_shell s target_uv) \<inter> set (border_shell s first_source)))))"
  proof
  assume common: "set (border_shell s target_uv) \<inter> set (border_shell s first_source) \<noteq> {}"
  then have tne: "border_shell s target_uv \<noteq> []" by auto
  from len have "selected_uvs \<noteq> []" "\<not> length selected_uvs < 2" by auto
  then show "snap_uv_to_nearest ar thr s selected_uvs (SelectTgl (Some target_uv))
      = Inr (s, Warned (SharedPoints
          (card (set (border_shell s target_uv) \<inter> set (border_shell s first_source)))))"
    unfolding snap_uv_to_nearest_def using common tne by (simp add: src Let_def)
  qed
next
  show "\<forall>s' out. snap_uv_to_nearest ar thr s selected_uvs (SelectTgl (Some target_uv)) = Inr (s', out) \<longrightarrow>
            (\<forall>c \<in> set (border_shell s target_uv). uv_query s' c = uv_query s c) \<and>
            (\<forall>c \<in> fst ` set (drop (length (edit_calls s)) (edit_calls s')).
               c \<in> set selected_uvs \<and> c \<noteq> target_uv \<and> c \<notin> set (border_shell s target_uv))"
  proof (intro allI impI)
  fix s' out
  assume r: "snap_uv_to_nearest ar thr s selected_uvs (SelectTgl (Some target_uv)) = Inr (s', out)"
  let ?T = "border_shell s target_uv"
  let ?srcs = "first_source # more_sources"
  have "\<exists>ws. s' = run_writes s ws \<and> fst ` set ws \<subseteq> set ?srcs - set ?T"
  proof (cases "?T \<noteq> [] \<and> set ?T \<inter> set (border_shell s first_source) = {}")
    case True
    then have tne: "?T \<noteq> []" and disj: "set ?T \<inter> set (border_shell s first_source) = {}"
      by blast+
    from r obtain tps ev where
      "snap_sources ar thr ?T tps ?srcs (s, []) = Inr (s', ev)"
      unfolding snap_passes_guards [OF src len tne disj]
      by (auto split: sum.splits prod.splits simp del: snap_sources.simps)
    then show ?thesis by (rule snap_sources_writes)
  next
    case False
    from len have "selected_uvs \<noteq> []" "\<not> length selected_uvs < 2" by auto
    with r False have "s' = s"
      unfolding snap_uv_to_nearest_def by (auto simp: src Let_def split: if_splits)
    then have "s' = run_writes s []" by simp
    then show ?thesis by (intro exI [of _ "[]"]) simp
  qed
  then obtain ws where ws: "s' = run_writes s ws" "fst ` set ws \<subseteq> set ?srcs - set ?T" by blast
  have calls: "drop (length (edit_calls s)) (edit_calls s') = ws"
    unfolding ws(1) by (simp add: run_writes_static)
  have ssub: "set ?srcs \<subseteq> {c \<in> set selected_uvs. c \<noteq> target_uv}"
    unfolding src [symmetric] by auto
  show "(\<forall>c \<in> set ?T. uv_query s' c = uv_query s c) \<and>
        (\<forall>c \<in> fst ` set (drop (length (edit_calls s)) (edit_calls s')).
           c \<in> set selected_uvs \<and> c \<noteq> target_uv \<and> c \<notin> set ?T)"
  proof
    show "\<forall>c \<in> set ?T. uv_query s' c = uv_query s c"
    proof
      fix c assume "c \<in> set ?T"
      with ws(2) have "c \<notin> fst ` set ws" by auto
      then show "uv_query s' c = uv_query s c"
        unfolding ws(1) by (rule uv_query_run_writes_other)
    qed
    show "\<forall>c \<in> fst ` set (drop (length (edit_calls s)) (edit_calls s')).
           c \<in> set selected_uvs \<and> c \<noteq> target_uv \<and> c \<notin> set ?T"
      unfolding calls using ws(2) ssub by blast
  qed
  qed
qed

theorem snap_first_shell_guard_witness:
  "filter (\<lambda>uv. uv \<noteq> (''S'', 5)) [(''S'', 6), (''S'', 0), (''S'', 5)] = [(''S'', 6), (''S'', 0 :: nat)] \<and>
   2 \<le> length [(''S'', 6), (''S'', 0), (''S'', 5 :: nat)] \<and>
   set (border_shell example_snap_scene (''S'', 5)) \<inter> set (border_shell example_snap_scene (''S'', 6)) \<noteq> {} \<and>
   snap_uv_to_nearest double_arith (1 / 128) example_snap_scene [(''S'', 6), (''S'', 0), (''S'', 5)]
       (SelectTgl (Some (''S'', 5)))
     = Inr (example_snap_scene, Warned (SharedPoints 2))"
proof -
  have h1: "filter (\<lambda>uv. uv \<noteq> (''S'', 5)) [(''S'', 6), (''S'', 0), (''S'', 5)]
              = (''S'', 6) # [(''S'', 0 :: nat)]"
    by simp
  have h2: "2 \<le> length [(''S'', 6), (''S'', 0), (''S'', 5 :: nat)]" by simp
  have c: "set (border_shell example_snap_scene (''S'', 5)) \<inter> set (border_shell example_snap_scene (''S'', 6))
             = {(''S'', 5), (''S'', 6)}"
    by (simp add: example_snap_fields)
  have k: "card {(''S'', 5 :: nat), (''S'', 6)} = 2" by simp
  from snap_first_shell_guard [OF h1 h2, of example_snap_scene double_arith "1 / 128"] h1 h2
  show ?thesis unfolding c k by simp
qed




end
